theory Spec2Isabelle
  imports Main
begin

section \<open>The tables of database/schema.sql\<close>

text \<open>
  Identifiers are UUID columns. Only equality of identifiers is ever used, so a UUID is
  modelled by its numeric value.
\<close>

type_synonym uuid = nat

text \<open>
  \<^verbatim>\<open>target_type TEXT NOT NULL CHECK (target_type IN ('question', 'answer'))\<close> and
  \<^verbatim>\<open>vote_type TEXT NOT NULL CHECK (vote_type IN ('upvote', 'downvote'))\<close>:
  the CHECK constraints leave two values for each column.
\<close>

datatype target_type = Question | Answer

datatype vote_type = Upvote | Downvote

text \<open>
  A row of \<^verbatim>\<open>public.votes\<close>. The column \<^verbatim>\<open>id\<close> is the field \<open>vid\<close>
  (\<open>id\<close> is the identity function of HOL). \<^verbatim>\<open>user_id\<close> has no NOT NULL, so it is
  optional. \<^verbatim>\<open>created_at\<close> is never read by the code modelled here and is left out.
\<close>

record vote_row =
  vid :: uuid
  user_id :: "uuid option"
  target_id :: uuid
  target_type :: target_type
  vote_type :: vote_type

text \<open>
  The database: the ids of \<^verbatim>\<open>public.profiles\<close>, the column \<^verbatim>\<open>votes\<close> of
  \<^verbatim>\<open>public.questions\<close> and of \<^verbatim>\<open>public.answers\<close> by primary key (a row is created
  with \<^verbatim>\<open>votes INTEGER DEFAULT 0\<close>), and the rows of \<^verbatim>\<open>public.votes\<close> in insertion
  order.
\<close>

record db =
  profiles :: "uuid set"
  questions :: "uuid \<rightharpoonup> int"
  answers :: "uuid \<rightharpoonup> int"
  votes :: "vote_row list"

text \<open>The errors of the store that the code can meet, by SQLSTATE or PostgREST code.\<close>

datatype pg_error =
    PGRST116                        \<comment> \<open>\<^verbatim>\<open>.single()\<close> found no row, or several\<close>
  | Invalid_text_representation     \<comment> \<open>22P02: a text that is not a UUID\<close>
  | Numeric_value_out_of_range      \<comment> \<open>22003: INTEGER arithmetic left the 32-bit range\<close>
  | Unique_violation                \<comment> \<open>23505: PRIMARY KEY or UNIQUE\<close>
  | Foreign_key_violation           \<comment> \<open>23503: REFERENCES\<close>
  | Rpc_error string                \<comment> \<open>an error object of \<^verbatim>\<open>supabaseAdmin.rpc\<close>\<close>

section \<open>The trigger function \<^verbatim>\<open>update_vote_count\<close>\<close>

text \<open>
  \<^verbatim>\<open>votes\<close> is an INTEGER column: \<^verbatim>\<open>+\<close> and \<^verbatim>\<open>-\<close> on it raise
  \<^verbatim>\<open>integer out of range\<close> when the result leaves the signed 32-bit range; they do not
  wrap.
\<close>

definition int4_ok :: "int \<Rightarrow> bool" where
  "int4_ok n = (- 2147483648 \<le> n \<and> n \<le> 2147483647)"

definition int4_plus :: "int \<Rightarrow> int \<Rightarrow> pg_error + int" where
  "int4_plus a b = (if int4_ok (a + b) then Inr (a + b) else Inl Numeric_value_out_of_range)"

definition int4_minus :: "int \<Rightarrow> int \<Rightarrow> pg_error + int" where
  "int4_minus a b = (if int4_ok (a - b) then Inr (a - b) else Inl Numeric_value_out_of_range)"

text \<open>\<^verbatim>\<open>CASE WHEN vote_type = 'upvote' THEN 1 ELSE -1 END\<close>\<close>

definition vote_case :: "vote_type \<Rightarrow> int" where
  "vote_case v = (if v = Upvote then 1 else - 1)"

text \<open>
  \<^verbatim>\<open>UPDATE t SET votes = f(votes) WHERE id = x\<close> on the \<^verbatim>\<open>votes\<close> column of a table:
  no row with that id is no error and no change; an error of the expression aborts.
\<close>

definition update_set_votes ::
  "(uuid \<rightharpoonup> int) \<Rightarrow> (int \<Rightarrow> pg_error + int) \<Rightarrow> uuid \<Rightarrow> pg_error + (uuid \<rightharpoonup> int)" where
  "update_set_votes t f x =
     (case t x of
        None \<Rightarrow> Inr t
      | Some v \<Rightarrow> (case f v of Inl e \<Rightarrow> Inl e | Inr v' \<Rightarrow> Inr (t(x \<mapsto> v'))))"

definition update_questions :: "(int \<Rightarrow> pg_error + int) \<Rightarrow> uuid \<Rightarrow> db \<Rightarrow> pg_error + db" where
  "update_questions f x d =
     (case update_set_votes (questions d) f x of
        Inl e \<Rightarrow> Inl e
      | Inr t \<Rightarrow> Inr (d\<lparr>questions := t\<rparr>))"

definition update_answers :: "(int \<Rightarrow> pg_error + int) \<Rightarrow> uuid \<Rightarrow> db \<Rightarrow> pg_error + db" where
  "update_answers f x d =
     (case update_set_votes (answers d) f x of
        Inl e \<Rightarrow> Inl e
      | Inr t \<Rightarrow> Inr (d\<lparr>answers := t\<rparr>))"

text \<open>
  \<^verbatim>\<open>TG_OP\<close> with the rows \<^verbatim>\<open>OLD\<close> and \<^verbatim>\<open>NEW\<close> it comes with: an INSERT has only
  NEW, a DELETE only OLD, an UPDATE has \<open>TG_UPDATE old new\<close>. The trigger is declared
  \<^verbatim>\<open>AFTER INSERT OR UPDATE OR DELETE\<close>, so the final \<^verbatim>\<open>RETURN NULL\<close> is never reached.
\<close>

datatype tg_event = TG_INSERT vote_row | TG_UPDATE vote_row vote_row | TG_DELETE vote_row

text \<open>
  The value of \<^verbatim>\<open>votes + CASE NEW ... END - CASE OLD ... END\<close>: the sum is computed
  first, then the difference, each in INTEGER.
\<close>

definition plus_new_minus_old :: "vote_type \<Rightarrow> vote_type \<Rightarrow> int \<Rightarrow> pg_error + int" where
  "plus_new_minus_old new_vt old_vt v =
     (case int4_plus v (vote_case new_vt) of
        Inl e \<Rightarrow> Inl e
      | Inr w \<Rightarrow> int4_minus w (vote_case old_vt))"

fun update_vote_count :: "tg_event \<Rightarrow> db \<Rightarrow> pg_error + db" where
  "update_vote_count (TG_INSERT new) d =
     (if target_type new = Question
      then update_questions (\<lambda>v. int4_plus v (vote_case (vote_type new))) (target_id new) d
      else update_answers (\<lambda>v. int4_plus v (vote_case (vote_type new))) (target_id new) d)"
| "update_vote_count (TG_UPDATE old new) d =
     (if target_type old = Question
      then update_questions (plus_new_minus_old (vote_type new) (vote_type old)) (target_id new) d
      else update_answers (plus_new_minus_old (vote_type new) (vote_type old)) (target_id new) d)"
| "update_vote_count (TG_DELETE old) d =
     (if target_type old = Question
      then update_questions (\<lambda>v. int4_minus v (vote_case (vote_type old))) (target_id old) d
      else update_answers (\<lambda>v. int4_minus v (vote_case (vote_type old))) (target_id old) d)"

text \<open>The score of a votable: the \<^verbatim>\<open>votes\<close> column of its row, if the row exists.\<close>

definition score :: "db \<Rightarrow> target_type \<Rightarrow> uuid \<Rightarrow> int option" where
  "score d tt x = (if tt = Question then questions d x else answers d x)"

section \<open>Statements on \<^verbatim>\<open>public.votes\<close>\<close>

text \<open>
  \<^verbatim>\<open>CREATE TRIGGER on_vote_change AFTER INSERT OR UPDATE OR DELETE ON public.votes
  FOR EACH ROW EXECUTE FUNCTION public.update_vote_count()\<close>: the function runs once for
  each row of the statement; an error it raises aborts the statement.
\<close>

fun on_vote_change :: "tg_event list \<Rightarrow> db \<Rightarrow> pg_error + db" where
  "on_vote_change [] d = Inr d"
| "on_vote_change (ev # evs) d =
     (case update_vote_count ev d of Inl e \<Rightarrow> Inl e | Inr d' \<Rightarrow> on_vote_change evs d')"

text \<open>
  \<^verbatim>\<open>UNIQUE(user_id, target_id, target_type)\<close>: row \<open>r'\<close> stands in the way of row
  \<open>r\<close>. A NULL \<^verbatim>\<open>user_id\<close> conflicts with nothing.
\<close>

definition unique_conflict :: "vote_row \<Rightarrow> vote_row \<Rightarrow> bool" where
  "unique_conflict r r' =
     (user_id r \<noteq> None \<and> user_id r' = user_id r \<and> target_id r' = target_id r \<and>
      target_type r' = target_type r)"

text \<open>
  \<^verbatim>\<open>INSERT INTO votes\<close> of one row: the primary key, the reference
  \<^verbatim>\<open>user_id UUID REFERENCES public.profiles(id)\<close> and the UNIQUE constraint are checked,
  then the trigger runs. \<^verbatim>\<open>target_id UUID NOT NULL\<close> has no REFERENCES clause, so the
  target is not checked. The route writes through the service-role client
  (\<^verbatim>\<open>supabaseAdmin\<close>), which the row level security policies do not restrict. A statement that fails returns the error only: the database stays
  as it was.
\<close>

definition insert_vote :: "vote_row \<Rightarrow> db \<Rightarrow> pg_error + db" where
  "insert_vote r d =
     (if vid r \<in> set (map vid (votes d)) then Inl Unique_violation
      else if (case user_id r of None \<Rightarrow> False | Some u \<Rightarrow> u \<notin> profiles d)
        then Inl Foreign_key_violation
      else if [r' \<leftarrow> votes d. unique_conflict r r'] \<noteq> [] then Inl Unique_violation
      else on_vote_change [TG_INSERT r] (d\<lparr>votes := votes d @ [r]\<rparr>))"

text \<open>
  The SET clause of an UPDATE on \<^verbatim>\<open>votes\<close>: a new value, or none, for each of the
  columns \<^verbatim>\<open>target_id\<close>, \<^verbatim>\<open>target_type\<close> and \<^verbatim>\<open>vote_type\<close>.
\<close>

record vote_set =
  set_target_id :: "uuid option"
  set_target_type :: "target_type option"
  set_vote_type :: "vote_type option"

definition apply_set :: "vote_set \<Rightarrow> vote_row \<Rightarrow> vote_row" where
  "apply_set s r =
     r\<lparr>target_id := (case set_target_id s of None \<Rightarrow> target_id r | Some t \<Rightarrow> t),
       target_type := (case set_target_type s of None \<Rightarrow> target_type r | Some t \<Rightarrow> t),
       vote_type := (case set_vote_type s of None \<Rightarrow> vote_type r | Some v \<Rightarrow> v)\<rparr>"

text \<open>\<^verbatim>\<open>UPDATE votes SET ... WHERE id = x\<close>\<close>

definition update_votes_eq_id :: "vote_set \<Rightarrow> uuid \<Rightarrow> db \<Rightarrow> pg_error + db" where
  "update_votes_eq_id s x d =
     (let olds = [r \<leftarrow> votes d. vid r = x];
          rows = map (\<lambda>r. if vid r = x then apply_set s r else r) (votes d)
      in if [r \<leftarrow> olds. [r' \<leftarrow> rows. vid r' \<noteq> x \<and> unique_conflict (apply_set s r) r'] \<noteq> []] \<noteq> []
         then Inl Unique_violation
         else on_vote_change (map (\<lambda>r. TG_UPDATE r (apply_set s r)) olds) (d\<lparr>votes := rows\<rparr>))"

text \<open>\<^verbatim>\<open>DELETE FROM votes WHERE id = x\<close>\<close>

definition delete_votes_eq_id :: "uuid \<Rightarrow> db \<Rightarrow> pg_error + db" where
  "delete_votes_eq_id x d =
     on_vote_change (map TG_DELETE [r \<leftarrow> votes d. vid r = x])
       (d\<lparr>votes := [r \<leftarrow> votes d. vid r \<noteq> x]\<rparr>)"

section \<open>The route \<^verbatim>\<open>POST /api/vote\<close> (src/app/api/vote/route.ts)\<close>

text \<open>
  The field \<^verbatim>\<open>target_id\<close> of the request body: a text that is a UUID, or any other
  text. An absent field is the empty text (both are falsy). A text that is not a UUID is
  refused by the store when it is compared with the UUID column.
\<close>

datatype id_field = Text string | Uuid uuid

text \<open>
  The parsed body. An absent \<^verbatim>\<open>target_type\<close> or \<^verbatim>\<open>vote_type\<close> is the empty string:
  both are falsy and neither is in the lists the route accepts.
\<close>

record vote_request =
  req_target_id :: id_field
  req_target_type :: string
  req_vote_type :: string

text \<open>
  What the route gets from outside the database: the user of the session
  (\<^verbatim>\<open>supabase.auth.getUser()\<close>; \<open>None\<close> when it returns an error or no user), the
  value \<^verbatim>\<open>uuid_generate_v4()\<close> gives the new row, and the error object, if any, of
  \<^verbatim>\<open>supabaseAdmin.rpc('update_vote_count', {p_target_id, p_target_type})\<close>.
  schema.sql declares \<^verbatim>\<open>update_vote_count()\<close> without parameters and
  \<^verbatim>\<open>RETURNS TRIGGER\<close>, so the call has no function of the schema to run and changes no
  table; only its error object is seen by the route.
\<close>

record env =
  session_user :: "uuid option"
  new_vote_id :: uuid
  rpc_error :: "pg_error option"

datatype json_body =
    Success                   \<comment> \<open>\<^verbatim>\<open>{ success: true }\<close>\<close>
  | Error_text string         \<comment> \<open>\<^verbatim>\<open>{ error: '...' }\<close>\<close>
  | Error_message pg_error    \<comment> \<open>\<^verbatim>\<open>{ error: e.message }\<close>\<close>
  | Internal_server_error     \<comment> \<open>\<^verbatim>\<open>{ error: 'Internal server error', details }\<close>\<close>

record response =
  status :: nat
  body :: json_body

text \<open>\<^verbatim>\<open>NextResponse.json(b, { status })\<close>; the status is 200 when none is given.\<close>

definition json :: "nat \<Rightarrow> json_body \<Rightarrow> response" where
  "json st b = \<lparr>status = st, body = b\<rparr>"

text \<open>\<^verbatim>\<open>['question', 'answer'].includes(target_type)\<close> and the value it admits.\<close>

definition target_type_of :: "string \<Rightarrow> target_type option" where
  "target_type_of s =
     (if s = ''question'' then Some Question else if s = ''answer'' then Some Answer else None)"

text \<open>\<^verbatim>\<open>['upvote', 'downvote'].includes(vote_type)\<close> and the value it admits.\<close>

definition vote_type_of :: "string \<Rightarrow> vote_type option" where
  "vote_type_of s =
     (if s = ''upvote'' then Some Upvote else if s = ''downvote'' then Some Downvote else None)"

text \<open>
  \<^verbatim>\<open>from('votes').select('*').eq('user_id', u).eq('target_id', t).eq('target_type', tt)
  .single()\<close>: the pair of \<^verbatim>\<open>data\<close> and \<^verbatim>\<open>error\<close>. Exactly one row is the data;
  no row, or several, is the error PGRST116.
\<close>

definition select_vote_single ::
  "uuid \<Rightarrow> id_field \<Rightarrow> target_type \<Rightarrow> db \<Rightarrow> vote_row option \<times> pg_error option" where
  "select_vote_single u tid tt d =
     (case tid of
        Text s \<Rightarrow> (None, Some Invalid_text_representation)
      | Uuid t \<Rightarrow>
          (case [r \<leftarrow> votes d. user_id r = Some u \<and> target_id r = t \<and> target_type r = tt] of
             [r] \<Rightarrow> (Some r, None)
           | _ \<Rightarrow> (None, Some PGRST116)))"

text \<open>
  Lines 62 to 108 of the route: the delete, the update or the insert, by the existing
  vote. Each of the three returns its error to the caller in the same way.
\<close>

definition vote_mutation ::
  "env \<Rightarrow> uuid \<Rightarrow> id_field \<Rightarrow> target_type \<Rightarrow> vote_type \<Rightarrow> vote_row option \<Rightarrow> db \<Rightarrow> pg_error + db"
  where
  "vote_mutation e u tid tt vt existingVote d =
     (case existingVote of
        Some ev \<Rightarrow>
          if vote_type ev = vt then delete_votes_eq_id (vid ev) d
          else update_votes_eq_id
                 \<lparr>set_target_id = None, set_target_type = None, set_vote_type = Some vt\<rparr>
                 (vid ev) d
      | None \<Rightarrow>
          (case tid of
             Text s \<Rightarrow> Inl Invalid_text_representation
           | Uuid t \<Rightarrow>
               insert_vote
                 \<lparr>vid = new_vote_id e, user_id = Some u, target_id = t, target_type = tt,
                  vote_type = vt\<rparr> d))"

text \<open>
  The route. The request is \<open>None\<close> when \<^verbatim>\<open>request.json()\<close> throws, which the
  \<^verbatim>\<open>catch\<close> turns into status 500. The result is the response and the database after
  the call.
\<close>

definition POST :: "env \<Rightarrow> vote_request option \<Rightarrow> db \<Rightarrow> response \<times> db" where
  "POST e request d =
     (case request of
        None \<Rightarrow> (json 500 Internal_server_error, d)
      | Some rq \<Rightarrow>
          if req_target_id rq = Text [] \<or> req_target_type rq = [] \<or> req_vote_type rq = []
          then (json 400 (Error_text ''Missing required fields''), d)
          else (case target_type_of (req_target_type rq) of
            None \<Rightarrow> (json 400 (Error_text ''Invalid target type''), d)
          | Some tt \<Rightarrow>
          (case vote_type_of (req_vote_type rq) of
            None \<Rightarrow> (json 400 (Error_text ''Invalid vote type''), d)
          | Some vt \<Rightarrow>
          (case session_user e of
            None \<Rightarrow> (json 401 (Error_text ''Authentication required''), d)
          | Some u \<Rightarrow>
          (case select_vote_single u (req_target_id rq) tt d of
            (existingVote, voteCheckError) \<Rightarrow>
              if voteCheckError \<noteq> None \<and> voteCheckError \<noteq> Some PGRST116
              then (json 500 (Error_message (case voteCheckError of Some x \<Rightarrow> x | None \<Rightarrow> PGRST116)), d)
              else (case vote_mutation e u (req_target_id rq) tt vt existingVote d of
                Inl err \<Rightarrow> (json 500 (Error_message err), d)
              | Inr d' \<Rightarrow>
                  if rpc_error e \<noteq> None
                  then (json 200 Success, d')
                  else (json 200 Success, d')))))))"

section \<open>The client (src/lib/api.ts, src/components/ui/VotingButtons.tsx)\<close>

text \<open>
  \<^verbatim>\<open>vote\<close> of api.ts, as a function of what \<^verbatim>\<open>fetch('/api/vote', ...)\<close> gives:
  \<open>None\<close> when the request or the reading of its body throws. \<^verbatim>\<open>response.ok\<close> is a
  status from 200 to 299; \<^verbatim>\<open>result.success\<close> is true only in the body
  \<^verbatim>\<open>{ success: true }\<close>.
\<close>

definition vote :: "response option \<Rightarrow> bool" where
  "vote r =
     (case r of
        None \<Rightarrow> False
      | Some resp \<Rightarrow>
          if \<not> (200 \<le> status resp \<and> status resp \<le> 299) then False
          else body resp = Success)"

text \<open>
  The \<^verbatim>\<open>Vote\<close> object the component keeps. The component writes the empty string into
  \<^verbatim>\<open>id\<close> and \<^verbatim>\<open>user_id\<close>; that is \<open>None\<close> here.
\<close>

record client_vote =
  cv_id :: "uuid option"
  cv_user_id :: "uuid option"
  cv_target_id :: uuid
  cv_target_type :: target_type
  cv_vote_type :: vote_type

record props =
  targetId :: uuid
  targetType :: target_type
  isAuthenticated :: bool

text \<open>The state of the component that outlives a call of \<^verbatim>\<open>handleVote\<close>.\<close>

record voting_state =
  userVote :: "client_vote option"
  voteCount :: int
  showLoginMessage :: bool

text \<open>
  \<^verbatim>\<open>handleVote\<close> of \<^verbatim>\<open>VotingButtons\<close>; \<open>success\<close> is the value of
  \<^verbatim>\<open>await vote(voteData)\<close>.
\<close>

definition handleVote :: "props \<Rightarrow> vote_type \<Rightarrow> bool \<Rightarrow> voting_state \<Rightarrow> voting_state" where
  "handleVote p voteType success st =
     (if \<not> isAuthenticated p then st\<lparr>showLoginMessage := True\<rparr>
      else if success then
        (let newVoteCount =
               (case userVote st of
                  Some uv \<Rightarrow>
                    (let oldVoteValue = (if cv_vote_type uv = Upvote then 1 else - 1);
                         newVoteValue = (if voteType = Upvote then 1 else - 1)
                     in voteCount st - oldVoteValue + newVoteValue)
                | None \<Rightarrow> voteCount st + (if voteType = Upvote then 1 else - 1))
         in st\<lparr>voteCount := newVoteCount,
               userVote := Some \<lparr>cv_id = (case userVote st of Some uv \<Rightarrow> cv_id uv | None \<Rightarrow> None),
                                 cv_user_id = None,
                                 cv_target_id = targetId p,
                                 cv_target_type = targetType p,
                                 cv_vote_type = voteType\<rparr>\<rparr>)
      else st)"

text \<open>\<^verbatim>\<open>handleVote\<close> of \<^verbatim>\<open>CompactVotingButtons\<close>: the same, without the login message.\<close>

definition compact_handleVote ::
  "props \<Rightarrow> vote_type \<Rightarrow> bool \<Rightarrow> voting_state \<Rightarrow> voting_state" where
  "compact_handleVote p voteType success st =
     (if \<not> isAuthenticated p then st
      else if success then
        (let newVoteCount =
               (case userVote st of
                  Some uv \<Rightarrow>
                    (let oldVoteValue = (if cv_vote_type uv = Upvote then 1 else - 1);
                         newVoteValue = (if voteType = Upvote then 1 else - 1)
                     in voteCount st - oldVoteValue + newVoteValue)
                | None \<Rightarrow> voteCount st + (if voteType = Upvote then 1 else - 1))
         in st\<lparr>voteCount := newVoteCount,
               userVote := Some \<lparr>cv_id = (case userVote st of Some uv \<Rightarrow> cv_id uv | None \<Rightarrow> None),
                                 cv_user_id = None,
                                 cv_target_id = targetId p,
                                 cv_target_type = targetType p,
                                 cv_vote_type = voteType\<rparr>\<rparr>)
      else st)"

section \<open>Counting the ledger\<close>

text \<open>The number of rows of \<^verbatim>\<open>votes\<close> with a given direction that reference a votable.\<close>

definition count_votes :: "db \<Rightarrow> vote_type \<Rightarrow> target_type \<Rightarrow> uuid \<Rightarrow> nat" where
  "count_votes d vt tt x =
     length [r \<leftarrow> votes d. target_type r = tt \<and> target_id r = x \<and> vote_type r = vt]"

text \<open>The score of a votable, when it exists, is its upvotes minus its downvotes.\<close>

definition consistent_at :: "db \<Rightarrow> target_type \<Rightarrow> uuid \<Rightarrow> bool" where
  "consistent_at d tt x =
     (case score d tt x of
        None \<Rightarrow> True
      | Some s \<Rightarrow> s = int (count_votes d Upvote tt x) - int (count_votes d Downvote tt x))"

text \<open>
  One row-level change of the ledger, and a sequence of them. A statement the database
  rejects changes nothing.
\<close>

datatype mutation = Insert vote_row | Update vote_set uuid | Delete uuid

fun apply_mutation :: "mutation \<Rightarrow> db \<Rightarrow> pg_error + db" where
  "apply_mutation (Insert r) d = insert_vote r d"
| "apply_mutation (Update s x) d = update_votes_eq_id s x d"
| "apply_mutation (Delete x) d = delete_votes_eq_id x d"

definition step :: "db \<Rightarrow> mutation \<Rightarrow> db" where
  "step d m = (case apply_mutation m d of Inl e \<Rightarrow> d | Inr d' \<Rightarrow> d')"

definition run :: "mutation list \<Rightarrow> db \<Rightarrow> db" where
  "run ms d = foldl step d ms"

text \<open>
  A change that leaves the target of every row alone: an insert, a delete, or an update
  that sets neither \<^verbatim>\<open>target_id\<close> nor \<^verbatim>\<open>target_type\<close>. The route issues no other.
\<close>

definition keeps_target :: "mutation \<Rightarrow> bool" where
  "keeps_target m =
     (case m of
        Update s x \<Rightarrow> set_target_id s = None \<and> set_target_type s = None
      | _ \<Rightarrow> True)"

text \<open>
  The state \<open>d'\<close> differs from \<open>d\<close> in one score only, moved by \<open>k\<close> if the votable
  exists: the ledger and the profiles are those of \<open>d\<close>.
\<close>

definition moved :: "db \<Rightarrow> target_type \<Rightarrow> uuid \<Rightarrow> int \<Rightarrow> db \<Rightarrow> bool" where
  "moved d tt x k d' =
     (votes d' = votes d \<and> profiles d' = profiles d \<and>
      (\<forall>tt' y. score d' tt' y =
         (if tt' = tt \<and> y = x then map_option (\<lambda>s. s + k) (score d tt x) else score d tt' y)))"

section \<open>Example states\<close>

text \<open>
  Voter 7 with a session; the RPC answering that it knows no such function. Question 1,
  question 2 and answer 3. The states before and after voter 7's upvote on question 1.
\<close>

definition env_A :: env where
  "env_A = \<lparr>session_user = Some 7, new_vote_id = 10, rpc_error = Some (Rpc_error ''PGRST202'')\<rparr>"

definition up_Q1 :: vote_request where
  "up_Q1 = \<lparr>req_target_id = Uuid 1, req_target_type = ''question'', req_vote_type = ''upvote''\<rparr>"

definition down_Q1 :: vote_request where
  "down_Q1 = \<lparr>req_target_id = Uuid 1, req_target_type = ''question'', req_vote_type = ''downvote''\<rparr>"

definition db0 :: db where
  "db0 = \<lparr>profiles = {7, 8}, questions = [1 \<mapsto> 0, 2 \<mapsto> 0], answers = [3 \<mapsto> 0], votes = []\<rparr>"

definition vote_A_Q1 :: vote_row where
  "vote_A_Q1 = \<lparr>vid = 10, user_id = Some 7, target_id = 1, target_type = Question, vote_type = Upvote\<rparr>"

definition db1 :: db where
  "db1 = \<lparr>profiles = {7, 8}, questions = [1 \<mapsto> 1, 2 \<mapsto> 0], answers = [3 \<mapsto> 0], votes = [vote_A_Q1]\<rparr>"

text \<open>Question 1 with the largest score an INTEGER column holds.\<close>

definition db_max :: db where
  "db_max = \<lparr>profiles = {7, 8}, questions = [1 \<mapsto> 2147483647], answers = Map.empty, votes = []\<rparr>"

text \<open>The buttons of question 1, showing voter 7's upvote and the score 1.\<close>

definition buttons_Q1 :: props where
  "buttons_Q1 = \<lparr>targetId = 1, targetType = Question, isAuthenticated = True\<rparr>"

definition shown_A_Q1 :: voting_state where
  "shown_A_Q1 =
     \<lparr>userVote = Some \<lparr>cv_id = Some 10, cv_user_id = Some 7, cv_target_id = 1,
                        cv_target_type = Question, cv_vote_type = Upvote\<rparr>,
      voteCount = 1, showLoginMessage = False\<rparr>"

section \<open>The arithmetic of the trigger\<close>

lemma update_questions_Inr:
  "questions d x = Some v \<Longrightarrow> f v = Inr w \<Longrightarrow>
   update_questions f x d = Inr (d\<lparr>questions := (questions d)(x \<mapsto> w)\<rparr>)"
  by (simp add: update_questions_def update_set_votes_def)

lemma update_answers_Inr:
  "answers d x = Some v \<Longrightarrow> f v = Inr w \<Longrightarrow>
   update_answers f x d = Inr (d\<lparr>answers := (answers d)(x \<mapsto> w)\<rparr>)"
  by (simp add: update_answers_def update_set_votes_def)

lemma int4_plus_Inr: "int4_ok (a + b) \<Longrightarrow> int4_plus a b = Inr (a + b)"
  by (simp add: int4_plus_def)

lemma int4_minus_Inr: "int4_ok (a - b) \<Longrightarrow> int4_minus a b = Inr (a - b)"
  by (simp add: int4_minus_def)

lemma plus_new_minus_old_Inr:
  "int4_ok (v + vote_case n) \<Longrightarrow> int4_ok (v + vote_case n - vote_case ol) \<Longrightarrow>
   plus_new_minus_old n ol v = Inr (v + vote_case n - vote_case ol)"
  by (simp add: plus_new_minus_old_def int4_plus_def int4_minus_def)

lemma score_after_update:
  assumes "score d tt x = Some v" and "f v = Inr w"
  shows "\<exists>d'. (if tt = Question then update_questions f x d else update_answers f x d) = Inr d'
           \<and> score d' tt x = Some w"
  using assms
  by (cases tt) (auto simp: score_def update_questions_Inr update_answers_Inr)

lemma trigger_insert_score:
  assumes "score d (target_type r) (target_id r) = Some s"
    and "int4_ok (s + vote_case (vote_type r))"
  shows "\<exists>d'. update_vote_count (TG_INSERT r) d = Inr d' \<and>
           score d' (target_type r) (target_id r) = Some (s + vote_case (vote_type r))"
  using score_after_update [where f = "\<lambda>v. int4_plus v (vote_case (vote_type r))",
          OF assms(1) int4_plus_Inr [OF assms(2)]]
  by (cases "target_type r = Question") simp_all

lemma trigger_update_score:
  assumes "score d (target_type r) (target_id r) = Some s"
    and "target_id new = target_id r"
    and "int4_ok (s + vote_case (vote_type new))"
    and "int4_ok (s + vote_case (vote_type new) - vote_case (vote_type r))"
  shows "\<exists>d'. update_vote_count (TG_UPDATE r new) d = Inr d' \<and>
           score d' (target_type r) (target_id r) =
             Some (s + vote_case (vote_type new) - vote_case (vote_type r))"
  using score_after_update [where f = "plus_new_minus_old (vote_type new) (vote_type r)",
          OF assms(1) plus_new_minus_old_Inr [OF assms(3) assms(4)]] assms(2)
  by (cases "target_type r = Question") simp_all

lemma trigger_delete_score:
  assumes "score d (target_type r) (target_id r) = Some s"
    and "int4_ok (s - vote_case (vote_type r))"
  shows "\<exists>d'. update_vote_count (TG_DELETE r) d = Inr d' \<and>
           score d' (target_type r) (target_id r) = Some (s - vote_case (vote_type r))"
  using score_after_update [where f = "\<lambda>v. int4_minus v (vote_case (vote_type r))",
          OF assms(1) int4_minus_Inr [OF assms(2)]]
  by (cases "target_type r = Question") simp_all

text \<open>
  Claim C7. When the trigger function processes a row whose target exists with score \<open>s\<close>,
  and the INTEGER arithmetic stays in range, it succeeds and the target's score becomes:
  on INSERT, \<open>s + 1\<close> for an upvote and \<open>s - 1\<close> for a downvote;
  on an UPDATE that keeps the target, \<open>s + delta new - delta old\<close> with
  \<open>delta Upvote = 1\<close> and \<open>delta Downvote = - 1\<close>;
  on DELETE, \<open>s - delta old\<close>.
\<close>

theorem update_vote_count_arithmetic:
  assumes "score d (target_type r) (target_id r) = Some s"
  shows
    "(int4_ok (s + (if vote_type r = Upvote then 1 else - 1)) \<longrightarrow>
        (\<exists>d'. update_vote_count (TG_INSERT r) d = Inr d' \<and>
           score d' (target_type r) (target_id r) =
             Some (s + (if vote_type r = Upvote then 1 else - 1)))) \<and>
     (target_id new = target_id r \<and>
      int4_ok (s + (if vote_type new = Upvote then 1 else - 1)) \<and>
      int4_ok (s + (if vote_type new = Upvote then 1 else - 1)
                 - (if vote_type r = Upvote then 1 else - 1)) \<longrightarrow>
        (\<exists>d'. update_vote_count (TG_UPDATE r new) d = Inr d' \<and>
           score d' (target_type r) (target_id r) =
             Some (s + (if vote_type new = Upvote then 1 else - 1)
                      - (if vote_type r = Upvote then 1 else - 1)))) \<and>
     (int4_ok (s - (if vote_type r = Upvote then 1 else - 1)) \<longrightarrow>
        (\<exists>d'. update_vote_count (TG_DELETE r) d = Inr d' \<and>
           score d' (target_type r) (target_id r) =
             Some (s - (if vote_type r = Upvote then 1 else - 1))))"
  using trigger_insert_score [OF assms] trigger_update_score [OF assms, of new]
    trigger_delete_score [OF assms]
  unfolding vote_case_def by blast

theorem update_vote_count_arithmetic_witness:
  "score \<lparr>profiles = {7}, questions = [1 \<mapsto> 0], answers = Map.empty, votes = []\<rparr> Question 1 = Some 0 \<and>
   (\<exists>d'. update_vote_count
        (TG_INSERT \<lparr>vid = 10, user_id = Some 7, target_id = 1, target_type = Question, vote_type = Upvote\<rparr>)
        \<lparr>profiles = {7}, questions = [1 \<mapsto> 0], answers = Map.empty, votes = []\<rparr> = Inr d' \<and>
      score d' Question 1 = Some 1) \<and>
   (\<exists>d'. update_vote_count
        (TG_UPDATE \<lparr>vid = 10, user_id = Some 7, target_id = 1, target_type = Question, vote_type = Upvote\<rparr>
                   \<lparr>vid = 10, user_id = Some 7, target_id = 1, target_type = Question, vote_type = Downvote\<rparr>)
        \<lparr>profiles = {7}, questions = [1 \<mapsto> 0], answers = Map.empty, votes = []\<rparr> = Inr d' \<and>
      score d' Question 1 = Some (- 2)) \<and>
   (\<exists>d'. update_vote_count
        (TG_DELETE \<lparr>vid = 10, user_id = Some 7, target_id = 1, target_type = Question, vote_type = Upvote\<rparr>)
        \<lparr>profiles = {7}, questions = [1 \<mapsto> 0], answers = Map.empty, votes = []\<rparr> = Inr d' \<and>
      score d' Question 1 = Some (- 1))"
  using update_vote_count_arithmetic
    [of "\<lparr>profiles = {7}, questions = [1 \<mapsto> 0], answers = Map.empty, votes = []\<rparr>"
        "\<lparr>vid = 10, user_id = Some 7, target_id = 1, target_type = Question, vote_type = Upvote\<rparr>"
        0
        "\<lparr>vid = 10, user_id = Some 7, target_id = 1, target_type = Question, vote_type = Downvote\<rparr>"]
  by (simp add: score_def int4_ok_def)


section \<open>Statements and the route: what a successful call leaves\<close>

lemma not_Question: "(tt \<noteq> Question) = (tt = Answer)"
  by (cases tt) simp_all

lemma db_eqI:
  fixes a b :: db
  assumes "votes a = votes b" and "profiles a = profiles b"
    and "\<And>tt y. score a tt y = score b tt y"
  shows "a = b"
proof -
  have q: "questions a = questions b"
    using assms(3) [of Question] by (auto simp: score_def)
  have an: "answers a = answers b"
    using assms(3) [of Answer] by (auto simp: score_def)
  show ?thesis using assms(1,2) q an by simp
qed

lemma bump_score:
  assumes "\<And>s. score d tt x = Some s \<Longrightarrow> f s = Inr (g s)"
  shows "\<exists>d'. (if tt = Question then update_questions f x d else update_answers f x d) = Inr d'
           \<and> votes d' = votes d \<and> profiles d' = profiles d
           \<and> (\<forall>tt' y. score d' tt' y =
                 (if tt' = tt \<and> y = x then map_option g (score d tt x) else score d tt' y))"
proof (cases tt)
  case Question
  show ?thesis
  proof (cases "questions d x")
    case None
    then show ?thesis using Question
      by (auto simp: update_questions_def update_set_votes_def score_def)
  next
    case (Some v)
    then have "f v = Inr (g v)" using assms Question by (simp add: score_def)
    then show ?thesis using Question Some
      by (auto simp: update_questions_def update_set_votes_def score_def)
  qed
next
  case Answer
  show ?thesis
  proof (cases "answers d x")
    case None
    then show ?thesis using Answer
      by (auto simp: update_answers_def update_set_votes_def score_def not_Question)
  next
    case (Some v)
    then have "f v = Inr (g v)" using assms Answer by (simp add: score_def)
    then show ?thesis using Answer Some
      by (auto simp: update_answers_def update_set_votes_def score_def not_Question)
  qed
qed

lemma trigger_insert:
  assumes "\<And>s. score d (target_type r) (target_id r) = Some s \<Longrightarrow> int4_ok (s + vote_case (vote_type r))"
  shows "\<exists>d'. update_vote_count (TG_INSERT r) d = Inr d' \<and>
           moved d (target_type r) (target_id r) (vote_case (vote_type r)) d'"
proof -
  have "\<exists>d'. (if target_type r = Question
              then update_questions (\<lambda>v. int4_plus v (vote_case (vote_type r))) (target_id r) d
              else update_answers (\<lambda>v. int4_plus v (vote_case (vote_type r))) (target_id r) d) = Inr d'
           \<and> votes d' = votes d \<and> profiles d' = profiles d
           \<and> (\<forall>tt' y. score d' tt' y =
                 (if tt' = target_type r \<and> y = target_id r
                  then map_option (\<lambda>s. s + vote_case (vote_type r)) (score d (target_type r) (target_id r))
                  else score d tt' y))"
    by (rule bump_score) (simp add: int4_plus_def assms)
  then show ?thesis by (simp add: moved_def)
qed

lemma trigger_delete:
  assumes "\<And>s. score d (target_type r) (target_id r) = Some s \<Longrightarrow> int4_ok (s - vote_case (vote_type r))"
  shows "\<exists>d'. update_vote_count (TG_DELETE r) d = Inr d' \<and>
           moved d (target_type r) (target_id r) (- vote_case (vote_type r)) d'"
proof -
  have "\<exists>d'. (if target_type r = Question
              then update_questions (\<lambda>v. int4_minus v (vote_case (vote_type r))) (target_id r) d
              else update_answers (\<lambda>v. int4_minus v (vote_case (vote_type r))) (target_id r) d) = Inr d'
           \<and> votes d' = votes d \<and> profiles d' = profiles d
           \<and> (\<forall>tt' y. score d' tt' y =
                 (if tt' = target_type r \<and> y = target_id r
                  then map_option (\<lambda>s. s + - vote_case (vote_type r)) (score d (target_type r) (target_id r))
                  else score d tt' y))"
    by (rule bump_score) (simp add: int4_minus_def assms)
  then show ?thesis by (simp add: moved_def)
qed

lemma trigger_update:
  assumes "\<And>s. score d (target_type r) (target_id new) = Some s \<Longrightarrow>
             int4_ok (s + vote_case (vote_type new)) \<and>
             int4_ok (s + vote_case (vote_type new) - vote_case (vote_type r))"
  shows "\<exists>d'. update_vote_count (TG_UPDATE r new) d = Inr d' \<and>
           moved d (target_type r) (target_id new)
             (vote_case (vote_type new) - vote_case (vote_type r)) d'"
proof -
  have "\<exists>d'. (if target_type r = Question
              then update_questions (plus_new_minus_old (vote_type new) (vote_type r)) (target_id new) d
              else update_answers (plus_new_minus_old (vote_type new) (vote_type r)) (target_id new) d) = Inr d'
           \<and> votes d' = votes d \<and> profiles d' = profiles d
           \<and> (\<forall>tt' y. score d' tt' y =
                 (if tt' = target_type r \<and> y = target_id new
                  then map_option (\<lambda>s. s + (vote_case (vote_type new) - vote_case (vote_type r)))
                         (score d (target_type r) (target_id new))
                  else score d tt' y))"
    by (rule bump_score)
       (use assms in \<open>simp add: plus_new_minus_old_def int4_plus_def int4_minus_def\<close>)
  then show ?thesis by (simp add: moved_def)
qed


lemma score_votes_update [simp]: "score (d\<lparr>votes := L\<rparr>) = score d"
  by (simp add: score_def fun_eq_iff)

lemma moved_votes:
  "moved (d\<lparr>votes := L\<rparr>) tt x k d' =
     (votes d' = L \<and> profiles d' = profiles d \<and>
      (\<forall>tt' y. score d' tt' y =
         (if tt' = tt \<and> y = x then map_option (\<lambda>s. s + k) (score d tt x) else score d tt' y)))"
  by (simp add: moved_def)

lemma insert_vote_ok:
  assumes fresh: "vid r \<notin> set (map vid (votes d))"
    and fk: "user_id r = Some u" "u \<in> profiles d"
    and uniq: "[r' \<leftarrow> votes d. unique_conflict r r'] = []"
    and room: "\<And>s. score d (target_type r) (target_id r) = Some s \<Longrightarrow>
                 int4_ok (s + vote_case (vote_type r))"
  shows "\<exists>d'. insert_vote r d = Inr d' \<and>
           moved (d\<lparr>votes := votes d @ [r]\<rparr>) (target_type r) (target_id r)
             (vote_case (vote_type r)) d'"
proof -
  have "\<exists>d'. update_vote_count (TG_INSERT r) (d\<lparr>votes := votes d @ [r]\<rparr>) = Inr d' \<and>
          moved (d\<lparr>votes := votes d @ [r]\<rparr>) (target_type r) (target_id r)
            (vote_case (vote_type r)) d'"
    by (rule trigger_insert) (simp add: room)
  then obtain d' where
    t: "update_vote_count (TG_INSERT r) (d\<lparr>votes := votes d @ [r]\<rparr>) = Inr d'" and
    m: "moved (d\<lparr>votes := votes d @ [r]\<rparr>) (target_type r) (target_id r)
            (vote_case (vote_type r)) d'"
    by blast
  have "insert_vote r d = Inr d'"
    using fresh fk uniq t by (simp add: insert_vote_def)
  with m show ?thesis by blast
qed

lemma vid_inj:
  assumes "distinct (map vid L)" and "ev \<in> set L" and "r \<in> set L"
  shows "(vid r = vid ev) = (r = ev)"
  using assms by (auto simp: distinct_map dest: inj_onD)

lemma filter_same:
  "distinct L \<Longrightarrow> ev \<in> set L \<Longrightarrow> [r \<leftarrow> L. r = ev] = [ev]"
proof (induction L)
  case Nil
  then show ?case by simp
next
  case (Cons a L)
  show ?case
  proof (cases "a = ev")
    case True
    then have "ev \<notin> set L" using Cons.prems by simp
    then have "[r \<leftarrow> L. r = ev] = []" by (auto simp: filter_empty_conv)
    then show ?thesis using True by simp
  next
    case False
    then show ?thesis using Cons by simp
  qed
qed

lemma filter_vid_eq:
  assumes "distinct (map vid L)" and "ev \<in> set L"
  shows "[r \<leftarrow> L. vid r = vid ev] = [ev]"
proof -
  have "[r \<leftarrow> L. vid r = vid ev] = [r \<leftarrow> L. r = ev]"
    by (rule filter_cong) (simp_all add: vid_inj [OF assms])
  also have "\<dots> = [ev]"
    using assms by (simp add: distinct_map filter_same)
  finally show ?thesis .
qed


lemma filter_vid_neq:
  assumes "distinct (map vid L)" and "ev \<in> set L"
  shows "[r \<leftarrow> L. vid r \<noteq> vid ev] = [r \<leftarrow> L. r \<noteq> ev]"
  by (rule filter_cong) (simp_all add: vid_inj [OF assms])

lemma map_vid_eq:
  assumes "distinct (map vid L)" and "ev \<in> set L"
  shows "map (\<lambda>r. if vid r = vid ev then f r else r) L = map (\<lambda>r. if r = ev then f ev else r) L"
  by (rule map_cong) (auto simp: vid_inj [OF assms])

lemma delete_votes_ok:
  assumes pk: "distinct (map vid (votes d))" and mem: "ev \<in> set (votes d)"
    and room: "\<And>s. score d (target_type ev) (target_id ev) = Some s \<Longrightarrow>
                 int4_ok (s - vote_case (vote_type ev))"
  shows "\<exists>d'. delete_votes_eq_id (vid ev) d = Inr d' \<and>
           moved (d\<lparr>votes := [r \<leftarrow> votes d. r \<noteq> ev]\<rparr>) (target_type ev) (target_id ev)
             (- vote_case (vote_type ev)) d'"
proof -
  have "\<exists>d'. update_vote_count (TG_DELETE ev) (d\<lparr>votes := [r \<leftarrow> votes d. r \<noteq> ev]\<rparr>) = Inr d' \<and>
          moved (d\<lparr>votes := [r \<leftarrow> votes d. r \<noteq> ev]\<rparr>) (target_type ev) (target_id ev)
            (- vote_case (vote_type ev)) d'"
    by (rule trigger_delete) (simp add: room)
  then obtain d' where
    t: "update_vote_count (TG_DELETE ev) (d\<lparr>votes := [r \<leftarrow> votes d. r \<noteq> ev]\<rparr>) = Inr d'" and
    m: "moved (d\<lparr>votes := [r \<leftarrow> votes d. r \<noteq> ev]\<rparr>) (target_type ev) (target_id ev)
            (- vote_case (vote_type ev)) d'"
    by blast
  have "delete_votes_eq_id (vid ev) d = Inr d'"
    using t by (simp add: delete_votes_eq_id_def filter_vid_eq [OF pk mem] filter_vid_neq [OF pk mem])
  with m show ?thesis by blast
qed

lemma apply_set_vote_type:
  "apply_set \<lparr>set_target_id = None, set_target_type = None, set_vote_type = Some vt\<rparr> r =
     r\<lparr>vote_type := vt\<rparr>"
  by (simp add: apply_set_def)

lemma update_votes_ok:
  assumes pk: "distinct (map vid (votes d))" and mem: "ev \<in> set (votes d)"
    and only: "[r \<leftarrow> votes d. user_id r = user_id ev \<and> target_id r = target_id ev \<and>
                  target_type r = target_type ev] = [ev]"
    and room: "\<And>s. score d (target_type ev) (target_id ev) = Some s \<Longrightarrow>
                 int4_ok (s + vote_case vt) \<and> int4_ok (s + vote_case vt - vote_case (vote_type ev))"
  shows "\<exists>d'. update_votes_eq_id
                 \<lparr>set_target_id = None, set_target_type = None, set_vote_type = Some vt\<rparr>
                 (vid ev) d = Inr d' \<and>
           moved (d\<lparr>votes := map (\<lambda>r. if r = ev then ev\<lparr>vote_type := vt\<rparr> else r) (votes d)\<rparr>)
             (target_type ev) (target_id ev) (vote_case vt - vote_case (vote_type ev)) d'"
proof -
  let ?s = "\<lparr>set_target_id = None, set_target_type = None, set_vote_type = Some vt\<rparr>"
  let ?L = "map (\<lambda>r. if r = ev then ev\<lparr>vote_type := vt\<rparr> else r) (votes d)"
  have rows: "map (\<lambda>r. if vid r = vid ev then apply_set ?s r else r) (votes d) = ?L"
    using map_vid_eq [OF pk mem, of "apply_set ?s"] by (simp add: apply_set_vote_type)
  have noconf: "[r' \<leftarrow> ?L. vid r' \<noteq> vid ev \<and> unique_conflict (ev\<lparr>vote_type := vt\<rparr>) r'] = []"
  proof (rule ccontr)
    assume "\<not> ?thesis"
    then obtain r' where r': "r' \<in> set ?L" "vid r' \<noteq> vid ev"
        "unique_conflict (ev\<lparr>vote_type := vt\<rparr>) r'"
      by (auto simp: filter_empty_conv)
    from r'(1,2) have in_d: "r' \<in> set (votes d)" by (auto split: if_splits)
    from r'(3) have "user_id r' = user_id ev \<and> target_id r' = target_id ev \<and>
        target_type r' = target_type ev"
      by (simp add: unique_conflict_def)
    with in_d have "r' \<in> set [r \<leftarrow> votes d. user_id r = user_id ev \<and> target_id r = target_id ev \<and>
                  target_type r = target_type ev]"
      by simp
    then have "r' = ev" by (simp only: only) simp
    with r'(2) show False by simp
  qed
  have "\<exists>d'. update_vote_count (TG_UPDATE ev (ev\<lparr>vote_type := vt\<rparr>)) (d\<lparr>votes := ?L\<rparr>) = Inr d' \<and>
          moved (d\<lparr>votes := ?L\<rparr>) (target_type ev) (target_id (ev\<lparr>vote_type := vt\<rparr>))
            (vote_case (vote_type (ev\<lparr>vote_type := vt\<rparr>)) - vote_case (vote_type ev)) d'"
    by (rule trigger_update) (use room in simp)
  then obtain d' where
    t: "update_vote_count (TG_UPDATE ev (ev\<lparr>vote_type := vt\<rparr>)) (d\<lparr>votes := ?L\<rparr>) = Inr d'" and
    m: "moved (d\<lparr>votes := ?L\<rparr>) (target_type ev) (target_id ev)
            (vote_case vt - vote_case (vote_type ev)) d'"
    by auto
  have "update_votes_eq_id ?s (vid ev) d = Inr d'"
    unfolding update_votes_eq_id_def Let_def rows filter_vid_eq [OF pk mem]
    using t noconf by (simp add: apply_set_vote_type)
  with m show ?thesis by blast
qed


lemma target_type_of_nonempty: "target_type_of s = Some tt \<Longrightarrow> s \<noteq> []"
  by (auto simp: target_type_of_def split: if_splits)

lemma vote_type_of_nonempty: "vote_type_of s = Some vt \<Longrightarrow> s \<noteq> []"
  by (auto simp: vote_type_of_def split: if_splits)

lemma select_error_Uuid:
  "snd (select_vote_single u (Uuid t) tt d) = None \<or>
   snd (select_vote_single u (Uuid t) tt d) = Some PGRST116"
  by (simp add: select_vote_single_def split: list.splits)

lemma POST_valid:
  assumes "req_target_id rq = Uuid t"
    and "target_type_of (req_target_type rq) = Some tt"
    and "vote_type_of (req_vote_type rq) = Some vt"
    and "session_user e = Some u"
  shows "POST e (Some rq) d =
           (case vote_mutation e u (Uuid t) tt vt (fst (select_vote_single u (Uuid t) tt d)) d of
              Inl err \<Rightarrow> (json 500 (Error_message err), d)
            | Inr d' \<Rightarrow> (json 200 Success, d'))"
  using assms target_type_of_nonempty [OF assms(2)] vote_type_of_nonempty [OF assms(3)]
    select_error_Uuid [of u t tt d]
  by (auto simp: POST_def split: prod.splits sum.splits)

lemma select_none:
  "[r \<leftarrow> votes d. user_id r = Some u \<and> target_id r = t \<and> target_type r = tt] = [] \<Longrightarrow>
   select_vote_single u (Uuid t) tt d = (None, Some PGRST116)"
  by (simp add: select_vote_single_def)

lemma select_one:
  "[r \<leftarrow> votes d. user_id r = Some u \<and> target_id r = t \<and> target_type r = tt] = [ev] \<Longrightarrow>
   select_vote_single u (Uuid t) tt d = (Some ev, None)"
  by (simp add: select_vote_single_def)

lemma filter_single_mem:
  assumes "filter P L = [ev]"
  shows "ev \<in> set L \<and> P ev"
proof -
  have "ev \<in> set (filter P L)" by (simp add: assms)
  then show ?thesis by simp
qed

lemma POST_insert:
  assumes v: "req_target_id rq = Uuid t" "target_type_of (req_target_type rq) = Some tt"
      "vote_type_of (req_vote_type rq) = Some vt" "session_user e = Some u"
    and none: "[r \<leftarrow> votes d. user_id r = Some u \<and> target_id r = t \<and> target_type r = tt] = []"
    and fresh: "new_vote_id e \<notin> set (map vid (votes d))"
    and prof: "u \<in> profiles d"
    and room: "\<And>s. score d tt t = Some s \<Longrightarrow> int4_ok (s + vote_case vt)"
  shows "\<exists>d'. POST e (Some rq) d = (json 200 Success, d') \<and>
           moved (d\<lparr>votes := votes d @ [\<lparr>vid = new_vote_id e, user_id = Some u, target_id = t,
                     target_type = tt, vote_type = vt\<rparr>]\<rparr>) tt t (vote_case vt) d'"
proof -
  let ?r = "\<lparr>vid = new_vote_id e, user_id = Some u, target_id = t, target_type = tt,
             vote_type = vt\<rparr>"
  have uniq: "[r' \<leftarrow> votes d. unique_conflict ?r r'] = []"
    using none by (simp add: unique_conflict_def filter_empty_conv)
  have "\<exists>d'. insert_vote ?r d = Inr d' \<and>
          moved (d\<lparr>votes := votes d @ [?r]\<rparr>) (target_type ?r) (target_id ?r)
            (vote_case (vote_type ?r)) d'"
    by (rule insert_vote_ok [where u = u]) (use fresh prof uniq room in simp_all)
  then obtain d' where i: "insert_vote ?r d = Inr d'"
    and m: "moved (d\<lparr>votes := votes d @ [?r]\<rparr>) tt t (vote_case vt) d'"
    by auto
  have "POST e (Some rq) d = (json 200 Success, d')"
    by (simp add: POST_valid [OF v] select_none [OF none] vote_mutation_def i)
  with m show ?thesis by blast
qed

lemma POST_delete:
  assumes v: "req_target_id rq = Uuid t" "target_type_of (req_target_type rq) = Some tt"
      "vote_type_of (req_vote_type rq) = Some vt" "session_user e = Some u"
    and one: "[r \<leftarrow> votes d. user_id r = Some u \<and> target_id r = t \<and> target_type r = tt] = [ev]"
    and same: "vote_type ev = vt"
    and pk: "distinct (map vid (votes d))"
    and room: "\<And>s. score d tt t = Some s \<Longrightarrow> int4_ok (s - vote_case vt)"
  shows "\<exists>d'. POST e (Some rq) d = (json 200 Success, d') \<and>
           moved (d\<lparr>votes := [r \<leftarrow> votes d. r \<noteq> ev]\<rparr>) tt t (- vote_case vt) d'"
proof -
  from filter_single_mem [OF one]
  have mem: "ev \<in> set (votes d)" and ev: "user_id ev = Some u" "target_id ev = t" "target_type ev = tt"
    by simp_all
  have "\<exists>d'. delete_votes_eq_id (vid ev) d = Inr d' \<and>
           moved (d\<lparr>votes := [r \<leftarrow> votes d. r \<noteq> ev]\<rparr>) (target_type ev) (target_id ev)
             (- vote_case (vote_type ev)) d'"
    by (rule delete_votes_ok [OF pk mem]) (use room ev same in simp)
  then obtain d' where i: "delete_votes_eq_id (vid ev) d = Inr d'"
    and m: "moved (d\<lparr>votes := [r \<leftarrow> votes d. r \<noteq> ev]\<rparr>) tt t (- vote_case vt) d'"
    using ev same by auto
  have "POST e (Some rq) d = (json 200 Success, d')"
    by (simp add: POST_valid [OF v] select_one [OF one] vote_mutation_def same i)
  with m show ?thesis by blast
qed

lemma POST_update:
  assumes v: "req_target_id rq = Uuid t" "target_type_of (req_target_type rq) = Some tt"
      "vote_type_of (req_vote_type rq) = Some vt" "session_user e = Some u"
    and one: "[r \<leftarrow> votes d. user_id r = Some u \<and> target_id r = t \<and> target_type r = tt] = [ev]"
    and other: "vote_type ev \<noteq> vt"
    and pk: "distinct (map vid (votes d))"
    and room: "\<And>s. score d tt t = Some s \<Longrightarrow>
                 int4_ok (s + vote_case vt) \<and> int4_ok (s + vote_case vt - vote_case (vote_type ev))"
  shows "\<exists>d'. POST e (Some rq) d = (json 200 Success, d') \<and>
           moved (d\<lparr>votes := map (\<lambda>r. if r = ev then ev\<lparr>vote_type := vt\<rparr> else r) (votes d)\<rparr>)
             tt t (vote_case vt - vote_case (vote_type ev)) d'"
proof -
  from filter_single_mem [OF one]
  have mem: "ev \<in> set (votes d)" and ev: "user_id ev = Some u" "target_id ev = t" "target_type ev = tt"
    by simp_all
  have only: "[r \<leftarrow> votes d. user_id r = user_id ev \<and> target_id r = target_id ev \<and>
                  target_type r = target_type ev] = [ev]"
    using one ev by simp
  have "\<exists>d'. update_votes_eq_id
                 \<lparr>set_target_id = None, set_target_type = None, set_vote_type = Some vt\<rparr>
                 (vid ev) d = Inr d' \<and>
           moved (d\<lparr>votes := map (\<lambda>r. if r = ev then ev\<lparr>vote_type := vt\<rparr> else r) (votes d)\<rparr>)
             (target_type ev) (target_id ev) (vote_case vt - vote_case (vote_type ev)) d'"
    by (rule update_votes_ok [OF pk mem only]) (use room ev in simp)
  then obtain d' where i: "update_votes_eq_id
                 \<lparr>set_target_id = None, set_target_type = None, set_vote_type = Some vt\<rparr>
                 (vid ev) d = Inr d'"
    and m: "moved (d\<lparr>votes := map (\<lambda>r. if r = ev then ev\<lparr>vote_type := vt\<rparr> else r) (votes d)\<rparr>)
             tt t (vote_case vt - vote_case (vote_type ev)) d'"
    using ev by auto
  have "POST e (Some rq) d = (json 200 Success, d')"
    by (simp add: POST_valid [OF v] select_one [OF one] vote_mutation_def other i)
  with m show ?thesis by blast
qed

section \<open>The route applies one ledger change\<close>

lemma int4_ok_between: "int4_ok a \<Longrightarrow> int4_ok b \<Longrightarrow> a \<le> c \<Longrightarrow> c \<le> b \<Longrightarrow> int4_ok c"
  by (simp add: int4_ok_def)

lemma vote_case_cases: "vote_case v = 1 \<or> vote_case v = - 1"
  by (simp add: vote_case_def)

text \<open>
  Claim C2, as the code has it. An authenticated call of the route whose
  \<^verbatim>\<open>target_id\<close> is a UUID, with valid
  \<^verbatim>\<open>target_type\<close> and \<^verbatim>\<open>vote_type\<close>, on a ledger that satisfies its PRIMARY KEY and
  UNIQUE constraints and with a store that accepts the statement, answers 200 and applies
  exactly one change to the ledger, chosen by the caller's existing vote on the target:
  none, the new row is appended; one of the same direction, that row is deleted; one of the
  opposite direction, that row's direction is replaced.
\<close>

theorem POST_one_mutation:
  assumes auth: "session_user e = Some u"
    and v: "req_target_id rq = Uuid t" "target_type_of (req_target_type rq) = Some tt"
      "vote_type_of (req_vote_type rq) = Some vt"
    and pk: "distinct (map vid (votes d))"
    and unique: "length [r \<leftarrow> votes d. user_id r = Some u \<and> target_id r = t \<and> target_type r = tt] \<le> 1"
    and fresh: "new_vote_id e \<notin> set (map vid (votes d))"
    and prof: "u \<in> profiles d"
    and room: "\<forall>s. score d tt t = Some s \<longrightarrow> int4_ok (s - 2) \<and> int4_ok (s + 2)"
  shows "\<exists>d'. POST e (Some rq) d = (json 200 Success, d') \<and>
           votes d' =
             (case [r \<leftarrow> votes d. user_id r = Some u \<and> target_id r = t \<and> target_type r = tt] of
                [] \<Rightarrow> votes d @ [\<lparr>vid = new_vote_id e, user_id = Some u, target_id = t,
                                  target_type = tt, vote_type = vt\<rparr>]
              | ev # _ \<Rightarrow>
                  if vote_type ev = vt then [r \<leftarrow> votes d. r \<noteq> ev]
                  else map (\<lambda>r. if r = ev then ev\<lparr>vote_type := vt\<rparr> else r) (votes d))"
proof -
  let ?F = "[r \<leftarrow> votes d. user_id r = Some u \<and> target_id r = t \<and> target_type r = tt]"
  have r1: "\<And>s k. score d tt t = Some s \<Longrightarrow> - 2 \<le> k \<Longrightarrow> k \<le> 2 \<Longrightarrow> int4_ok (s + k)"
  proof -
    fix s k :: int
    assume "score d tt t = Some s" "- 2 \<le> k" "k \<le> 2"
    with room have "int4_ok (s - 2)" "int4_ok (s + 2)" "s - 2 \<le> s + k" "s + k \<le> s + 2"
      by simp_all
    then show "int4_ok (s + k)" by (rule int4_ok_between)
  qed
  show ?thesis
  proof (cases ?F)
    case Nil
    have "\<exists>d'. POST e (Some rq) d = (json 200 Success, d') \<and>
           moved (d\<lparr>votes := votes d @ [\<lparr>vid = new_vote_id e, user_id = Some u, target_id = t,
                     target_type = tt, vote_type = vt\<rparr>]\<rparr>) tt t (vote_case vt) d'"
    proof (rule POST_insert [OF v auth Nil fresh prof])
      fix s assume "score d tt t = Some s"
      then show "int4_ok (s + vote_case vt)"
        using vote_case_cases [of vt] by (intro r1) auto
    qed
    then show ?thesis using Nil by (auto simp: moved_def)
  next
    case (Cons ev rest)
    with unique have one: "?F = [ev]" by simp
    show ?thesis
    proof (cases "vote_type ev = vt")
      case True
      have "\<exists>d'. POST e (Some rq) d = (json 200 Success, d') \<and>
           moved (d\<lparr>votes := [r \<leftarrow> votes d. r \<noteq> ev]\<rparr>) tt t (- vote_case vt) d'"
      proof (rule POST_delete [OF v auth one True pk])
        fix s assume "score d tt t = Some s"
        then have "int4_ok (s + - vote_case vt)"
          using vote_case_cases [of vt] by (intro r1) auto
        then show "int4_ok (s - vote_case vt)" by simp
      qed
      then show ?thesis using one True by (auto simp: moved_def)
    next
      case False
      have "\<exists>d'. POST e (Some rq) d = (json 200 Success, d') \<and>
           moved (d\<lparr>votes := map (\<lambda>r. if r = ev then ev\<lparr>vote_type := vt\<rparr> else r) (votes d)\<rparr>)
             tt t (vote_case vt - vote_case (vote_type ev)) d'"
      proof (rule POST_update [OF v auth one False pk])
        fix s assume s: "score d tt t = Some s"
        have a: "int4_ok (s + vote_case vt)"
          using s vote_case_cases [of vt] by (intro r1) auto
        have "int4_ok (s + (vote_case vt - vote_case (vote_type ev)))"
          using s vote_case_cases [of vt] vote_case_cases [of "vote_type ev"] by (intro r1) auto
        then have "int4_ok (s + vote_case vt - vote_case (vote_type ev))"
          by (simp add: algebra_simps)
        with a show "int4_ok (s + vote_case vt) \<and> int4_ok (s + vote_case vt - vote_case (vote_type ev))"
          by simp
      qed
      then show ?thesis using one False by (auto simp: moved_def)
    qed
  qed
qed


theorem POST_one_mutation_witness:
  "session_user (env_A\<lparr>new_vote_id := 11\<rparr>) = Some 7 \<and>
   req_target_id down_Q1 = Uuid 1 \<and>
   target_type_of (req_target_type down_Q1) = Some Question \<and>
   vote_type_of (req_vote_type down_Q1) = Some Downvote \<and>
   distinct (map vid (votes db1)) \<and>
   length [r \<leftarrow> votes db1. user_id r = Some 7 \<and> target_id r = 1 \<and> target_type r = Question] \<le> 1 \<and>
   new_vote_id (env_A\<lparr>new_vote_id := 11\<rparr>) \<notin> set (map vid (votes db1)) \<and>
   7 \<in> profiles db1 \<and>
   score db1 Question 1 = Some 1 \<and> int4_ok (1 - 2) \<and> int4_ok (1 + 2) \<and>
   (\<exists>d'. POST (env_A\<lparr>new_vote_id := 11\<rparr>) (Some down_Q1) db1 = (json 200 Success, d') \<and>
      votes d' = [vote_A_Q1\<lparr>vote_type := Downvote\<rparr>])"
  using POST_one_mutation [of "env_A\<lparr>new_vote_id := 11\<rparr>" 7 down_Q1 1 Question Downvote db1]
  by (simp add: env_A_def down_Q1_def db1_def vote_A_Q1_def target_type_of_def vote_type_of_def
        score_def int4_ok_def)


text \<open>
  Claim C2 as stated fails: it asks only for a session and for valid \<^verbatim>\<open>target_type\<close>
  and \<^verbatim>\<open>vote_type\<close>. Voter 7 sends the target \<^verbatim>\<open>abc\<close>, which is no UUID. The lookup
  of the existing vote fails on the UUID column, the route answers 500 with that error,
  and no row is inserted, updated or deleted.
\<close>

theorem POST_one_mutation_counterexample:
  "session_user env_A = Some 7 \<and>
   target_type_of ''question'' = Some Question \<and>
   vote_type_of ''upvote'' = Some Upvote \<and>
   POST env_A
     (Some \<lparr>req_target_id = Text ''abc'', req_target_type = ''question'',
            req_vote_type = ''upvote''\<rparr>) db0 =
     (\<lparr>status = 500, body = Error_message Invalid_text_representation\<rparr>, db0)"
  by (simp add: POST_def env_A_def target_type_of_def vote_type_of_def
        select_vote_single_def json_def)

section \<open>Voting twice\<close>

text \<open>
  Claim C8. From a state in which the voter holds no vote on an existing target, two
  consecutive calls of the route with the same voter, target and direction both answer
  200: the first appends the vote and moves the target's score by \<open>+1\<close> (upvote) or
  \<open>-1\<close> (downvote); the second deletes that vote and leaves the database, ledger and
  scores, exactly as it was before the first call.
\<close>

theorem POST_toggle_round_trip:
  assumes auth: "session_user e1 = Some u" "session_user e2 = Some u"
    and v: "req_target_id rq = Uuid t" "target_type_of (req_target_type rq) = Some tt"
      "vote_type_of (req_vote_type rq) = Some vt"
    and none: "[r \<leftarrow> votes d. user_id r = Some u \<and> target_id r = t \<and> target_type r = tt] = []"
    and pk: "distinct (map vid (votes d))"
    and fresh: "new_vote_id e1 \<notin> set (map vid (votes d))"
    and prof: "u \<in> profiles d"
    and sc: "score d tt t = Some s"
    and room: "int4_ok s" "int4_ok (s + (if vt = Upvote then 1 else - 1))"
  shows "\<exists>d1. POST e1 (Some rq) d = (json 200 Success, d1) \<and>
           votes d1 = votes d @ [\<lparr>vid = new_vote_id e1, user_id = Some u, target_id = t,
                                  target_type = tt, vote_type = vt\<rparr>] \<and>
           score d1 tt t = Some (s + (if vt = Upvote then 1 else - 1)) \<and>
           POST e2 (Some rq) d1 = (json 200 Success, d)"
proof -
  let ?r = "\<lparr>vid = new_vote_id e1, user_id = Some u, target_id = t, target_type = tt,
             vote_type = vt\<rparr>"
  let ?k = "vote_case vt"
  have k: "?k = (if vt = Upvote then 1 else - 1)" by (simp add: vote_case_def)
  have "\<exists>d'. POST e1 (Some rq) d = (json 200 Success, d') \<and>
          moved (d\<lparr>votes := votes d @ [?r]\<rparr>) tt t ?k d'"
    by (rule POST_insert [OF v auth(1) none fresh prof]) (use sc room k in simp)
  then obtain d1 where p1: "POST e1 (Some rq) d = (json 200 Success, d1)"
    and m1: "moved (d\<lparr>votes := votes d @ [?r]\<rparr>) tt t ?k d1"
    by blast
  from m1 have l1: "votes d1 = votes d @ [?r]" and pr1: "profiles d1 = profiles d"
    and s1: "\<And>tt' y. score d1 tt' y =
               (if tt' = tt \<and> y = t then map_option (\<lambda>s. s + ?k) (score d tt t) else score d tt' y)"
    by (simp_all add: moved_def)
  have st1: "score d1 tt t = Some (s + ?k)" using s1 [of tt t] sc by simp
  have one: "[r \<leftarrow> votes d1. user_id r = Some u \<and> target_id r = t \<and> target_type r = tt] = [?r]"
    using none by (simp add: l1)
  have pk1: "distinct (map vid (votes d1))" using pk fresh by (simp add: l1)
  have "\<exists>d'. POST e2 (Some rq) d1 = (json 200 Success, d') \<and>
          moved (d1\<lparr>votes := [r \<leftarrow> votes d1. r \<noteq> ?r]\<rparr>) tt t (- ?k) d'"
    by (rule POST_delete [OF v auth(2) one _ pk1]) (use st1 room in simp_all)
  then obtain d2 where p2: "POST e2 (Some rq) d1 = (json 200 Success, d2)"
    and m2: "moved (d1\<lparr>votes := [r \<leftarrow> votes d1. r \<noteq> ?r]\<rparr>) tt t (- ?k) d2"
    by blast
  have notin: "?r \<notin> set (votes d)"
  proof
    assume "?r \<in> set (votes d)"
    then have "vid ?r \<in> vid ` set (votes d)" by (rule imageI)
    with fresh show False by simp
  qed
  have "d2 = d"
  proof (rule db_eqI)
    have "[r \<leftarrow> votes d. r \<noteq> ?r] = votes d"
      using notin by (simp add: filter_id_conv) blast
    then show "votes d2 = votes d" using m2 by (simp add: moved_def l1)
    show "profiles d2 = profiles d" using m2 pr1 by (simp add: moved_def)
    fix tt' y
    have "score d2 tt' y =
            (if tt' = tt \<and> y = t then map_option (\<lambda>s. s + - ?k) (score d1 tt t) else score d1 tt' y)"
      using m2 by (simp add: moved_def)
    then show "score d2 tt' y = score d tt' y"
      using st1 sc s1 [of tt' y] by simp
  qed
  with p1 p2 l1 st1 k show ?thesis by auto
qed

theorem POST_toggle_round_trip_witness:
  "session_user env_A = Some 7 \<and> session_user (env_A\<lparr>new_vote_id := 11\<rparr>) = Some 7 \<and>
   req_target_id up_Q1 = Uuid 1 \<and>
   target_type_of (req_target_type up_Q1) = Some Question \<and>
   vote_type_of (req_vote_type up_Q1) = Some Upvote \<and>
   [r \<leftarrow> votes db0. user_id r = Some 7 \<and> target_id r = 1 \<and> target_type r = Question] = [] \<and>
   distinct (map vid (votes db0)) \<and>
   new_vote_id env_A \<notin> set (map vid (votes db0)) \<and>
   7 \<in> profiles db0 \<and>
   score db0 Question 1 = Some 0 \<and>
   int4_ok 0 \<and> int4_ok (0 + (if Upvote = Upvote then 1 else - 1)) \<and>
   (\<exists>d1. POST env_A (Some up_Q1) db0 = (json 200 Success, d1) \<and>
      votes d1 = votes db0 @ [\<lparr>vid = new_vote_id env_A, user_id = Some 7, target_id = 1,
                               target_type = Question, vote_type = Upvote\<rparr>] \<and>
      score d1 Question 1 = Some (0 + (if Upvote = Upvote then 1 else - 1)) \<and>
      POST (env_A\<lparr>new_vote_id := 11\<rparr>) (Some up_Q1) d1 = (json 200 Success, db0))"
proof -
  have h: "session_user env_A = Some 7" "session_user (env_A\<lparr>new_vote_id := 11\<rparr>) = Some 7"
    "req_target_id up_Q1 = Uuid 1"
    "target_type_of (req_target_type up_Q1) = Some Question"
    "vote_type_of (req_vote_type up_Q1) = Some Upvote"
    "[r \<leftarrow> votes db0. user_id r = Some 7 \<and> target_id r = 1 \<and> target_type r = Question] = []"
    "distinct (map vid (votes db0))"
    "new_vote_id env_A \<notin> set (map vid (votes db0))"
    "7 \<in> profiles db0"
    "score db0 Question 1 = Some 0"
    "int4_ok 0" "int4_ok (0 + (if Upvote = Upvote then 1 else - 1))"
    by (simp_all add: env_A_def up_Q1_def db0_def target_type_of_def vote_type_of_def
          score_def int4_ok_def)
  from h POST_toggle_round_trip [OF h] show ?thesis by blast
qed

section \<open>Switching direction\<close>

text \<open>
  Claim C9. When the voter holds an upvote on an existing target, a call of the route
  with direction downvote answers 200, turns that vote into a downvote and changes the
  target's score by exactly \<open>-2\<close>; when the voter holds a downvote, a call with direction
  upvote changes the score by exactly \<open>+2\<close>. (The ledger satisfies its PRIMARY KEY and the
  INTEGER arithmetic stays in range.)
\<close>

theorem POST_direction_switch:
  assumes auth: "session_user e = Some u"
    and v: "req_target_id rq = Uuid t" "target_type_of (req_target_type rq) = Some tt"
      "vote_type_of (req_vote_type rq) = Some vt"
    and one: "[r \<leftarrow> votes d. user_id r = Some u \<and> target_id r = t \<and> target_type r = tt] = [ev]"
    and pk: "distinct (map vid (votes d))"
    and sc: "score d tt t = Some s"
  shows
    "(vote_type ev = Upvote \<and> vt = Downvote \<and> int4_ok (s - 1) \<and> int4_ok (s - 2) \<longrightarrow>
        (\<exists>d'. POST e (Some rq) d = (json 200 Success, d') \<and>
           votes d' = map (\<lambda>r. if r = ev then ev\<lparr>vote_type := Downvote\<rparr> else r) (votes d) \<and>
           score d' tt t = Some (s - 2))) \<and>
     (vote_type ev = Downvote \<and> vt = Upvote \<and> int4_ok (s + 1) \<and> int4_ok (s + 2) \<longrightarrow>
        (\<exists>d'. POST e (Some rq) d = (json 200 Success, d') \<and>
           votes d' = map (\<lambda>r. if r = ev then ev\<lparr>vote_type := Upvote\<rparr> else r) (votes d) \<and>
           score d' tt t = Some (s + 2)))"
proof (intro conjI impI)
  assume h: "vote_type ev = Upvote \<and> vt = Downvote \<and> int4_ok (s - 1) \<and> int4_ok (s - 2)"
  then have other: "vote_type ev \<noteq> vt" by simp
  have "\<exists>d'. POST e (Some rq) d = (json 200 Success, d') \<and>
          moved (d\<lparr>votes := map (\<lambda>r. if r = ev then ev\<lparr>vote_type := vt\<rparr> else r) (votes d)\<rparr>)
            tt t (vote_case vt - vote_case (vote_type ev)) d'"
    by (rule POST_update [OF v auth one other pk]) (use sc h in \<open>simp add: vote_case_def int4_ok_def\<close>)
  then show "\<exists>d'. POST e (Some rq) d = (json 200 Success, d') \<and>
           votes d' = map (\<lambda>r. if r = ev then ev\<lparr>vote_type := Downvote\<rparr> else r) (votes d) \<and>
           score d' tt t = Some (s - 2)"
    using h sc by (auto simp: moved_def vote_case_def)
next
  assume h: "vote_type ev = Downvote \<and> vt = Upvote \<and> int4_ok (s + 1) \<and> int4_ok (s + 2)"
  then have other: "vote_type ev \<noteq> vt" by simp
  have "\<exists>d'. POST e (Some rq) d = (json 200 Success, d') \<and>
          moved (d\<lparr>votes := map (\<lambda>r. if r = ev then ev\<lparr>vote_type := vt\<rparr> else r) (votes d)\<rparr>)
            tt t (vote_case vt - vote_case (vote_type ev)) d'"
    by (rule POST_update [OF v auth one other pk]) (use sc h in \<open>simp add: vote_case_def int4_ok_def\<close>)
  then show "\<exists>d'. POST e (Some rq) d = (json 200 Success, d') \<and>
           votes d' = map (\<lambda>r. if r = ev then ev\<lparr>vote_type := Upvote\<rparr> else r) (votes d) \<and>
           score d' tt t = Some (s + 2)"
    using h sc by (auto simp: moved_def vote_case_def)
qed

theorem POST_direction_switch_witness:
  "session_user env_A = Some 7 \<and>
   req_target_id down_Q1 = Uuid 1 \<and>
   target_type_of (req_target_type down_Q1) = Some Question \<and>
   vote_type_of (req_vote_type down_Q1) = Some Downvote \<and>
   [r \<leftarrow> votes db1. user_id r = Some 7 \<and> target_id r = 1 \<and> target_type r = Question] = [vote_A_Q1] \<and>
   distinct (map vid (votes db1)) \<and>
   score db1 Question 1 = Some 1 \<and>
   vote_type vote_A_Q1 = Upvote \<and> int4_ok (1 - 1) \<and> int4_ok (1 - 2) \<and>
   (\<exists>d'. POST env_A (Some down_Q1) db1 = (json 200 Success, d') \<and>
      votes d' = map (\<lambda>r. if r = vote_A_Q1 then vote_A_Q1\<lparr>vote_type := Downvote\<rparr> else r) (votes db1) \<and>
      score d' Question 1 = Some (1 - 2))"
proof -
  have h: "session_user env_A = Some 7"
    "req_target_id down_Q1 = Uuid 1"
    "target_type_of (req_target_type down_Q1) = Some Question"
    "vote_type_of (req_vote_type down_Q1) = Some Downvote"
    "[r \<leftarrow> votes db1. user_id r = Some 7 \<and> target_id r = 1 \<and> target_type r = Question] = [vote_A_Q1]"
    "distinct (map vid (votes db1))"
    "score db1 Question 1 = Some 1"
    by (simp_all add: env_A_def down_Q1_def db1_def vote_A_Q1_def target_type_of_def
          vote_type_of_def score_def)
  have g: "vote_type vote_A_Q1 = Upvote" "int4_ok (1 - 1)" "int4_ok (1 - 2)"
    by (simp_all add: vote_A_Q1_def int4_ok_def)
  from h g POST_direction_switch [OF h] show ?thesis by blast
qed

section \<open>A target that does not exist\<close>

lemma moved_missing:
  assumes "moved (d\<lparr>votes := L\<rparr>) tt t k d'" and "score d tt t = None"
  shows "d' = d\<lparr>votes := L\<rparr>"
proof (rule db_eqI)
  show "votes d' = votes (d\<lparr>votes := L\<rparr>)" using assms(1) by (simp add: moved_def)
  show "profiles d' = profiles (d\<lparr>votes := L\<rparr>)" using assms(1) by (simp add: moved_def)
  fix tt' y
  show "score d' tt' y = score (d\<lparr>votes := L\<rparr>) tt' y"
    using assms by (simp add: moved_def)
qed

text \<open>
  Claim C4, as the code has it. The route never looks the target up, and
  \<^verbatim>\<open>votes.target_id\<close> references no table. An authenticated call with valid fields whose
  target is no existing votable is processed like any other: it answers 200 with
  \<^verbatim>\<open>{ success: true }\<close>, the ledger change selected by the voter's existing vote is
  applied (insert, delete or change of direction), and nothing else in the database
  changes: no score moves.
\<close>

theorem POST_missing_target:
  assumes auth: "session_user e = Some u"
    and v: "req_target_id rq = Uuid t" "target_type_of (req_target_type rq) = Some tt"
      "vote_type_of (req_vote_type rq) = Some vt"
    and missing: "score d tt t = None"
    and pk: "distinct (map vid (votes d))"
    and unique: "length [r \<leftarrow> votes d. user_id r = Some u \<and> target_id r = t \<and> target_type r = tt] \<le> 1"
    and fresh: "new_vote_id e \<notin> set (map vid (votes d))"
    and prof: "u \<in> profiles d"
  shows "POST e (Some rq) d =
           (json 200 Success,
            d\<lparr>votes :=
               (case [r \<leftarrow> votes d. user_id r = Some u \<and> target_id r = t \<and> target_type r = tt] of
                  [] \<Rightarrow> votes d @ [\<lparr>vid = new_vote_id e, user_id = Some u, target_id = t,
                                    target_type = tt, vote_type = vt\<rparr>]
                | ev # _ \<Rightarrow>
                    if vote_type ev = vt then [r \<leftarrow> votes d. r \<noteq> ev]
                    else map (\<lambda>r. if r = ev then ev\<lparr>vote_type := vt\<rparr> else r) (votes d))\<rparr>)"
proof (cases "[r \<leftarrow> votes d. user_id r = Some u \<and> target_id r = t \<and> target_type r = tt]")
  case Nil
  have "\<exists>d'. POST e (Some rq) d = (json 200 Success, d') \<and>
         moved (d\<lparr>votes := votes d @ [\<lparr>vid = new_vote_id e, user_id = Some u, target_id = t,
                   target_type = tt, vote_type = vt\<rparr>]\<rparr>) tt t (vote_case vt) d'"
    by (rule POST_insert [OF v auth Nil fresh prof]) (simp add: missing)
  then show ?thesis using Nil moved_missing [OF _ missing] by auto
next
  case (Cons ev rest)
  with unique have one:
    "[r \<leftarrow> votes d. user_id r = Some u \<and> target_id r = t \<and> target_type r = tt] = [ev]"
    by simp
  show ?thesis
  proof (cases "vote_type ev = vt")
    case True
    have "\<exists>d'. POST e (Some rq) d = (json 200 Success, d') \<and>
         moved (d\<lparr>votes := [r \<leftarrow> votes d. r \<noteq> ev]\<rparr>) tt t (- vote_case vt) d'"
      by (rule POST_delete [OF v auth one True pk]) (simp add: missing)
    then show ?thesis using one True moved_missing [OF _ missing] by auto
  next
    case False
    have "\<exists>d'. POST e (Some rq) d = (json 200 Success, d') \<and>
         moved (d\<lparr>votes := map (\<lambda>r. if r = ev then ev\<lparr>vote_type := vt\<rparr> else r) (votes d)\<rparr>)
           tt t (vote_case vt - vote_case (vote_type ev)) d'"
      by (rule POST_update [OF v auth one False pk]) (simp add: missing)
    then show ?thesis using one False moved_missing [OF _ missing] by auto
  qed
qed

theorem POST_missing_target_witness:
  "session_user env_A = Some 7 \<and>
   req_target_id \<lparr>req_target_id = Uuid 99, req_target_type = ''answer'', req_vote_type = ''downvote''\<rparr>
     = Uuid 99 \<and>
   target_type_of (req_target_type
     \<lparr>req_target_id = Uuid 99, req_target_type = ''answer'', req_vote_type = ''downvote''\<rparr>)
     = Some Answer \<and>
   vote_type_of (req_vote_type
     \<lparr>req_target_id = Uuid 99, req_target_type = ''answer'', req_vote_type = ''downvote''\<rparr>)
     = Some Downvote \<and>
   score db0 Answer 99 = None \<and>
   distinct (map vid (votes db0)) \<and>
   length [r \<leftarrow> votes db0. user_id r = Some 7 \<and> target_id r = 99 \<and> target_type r = Answer] \<le> 1 \<and>
   new_vote_id env_A \<notin> set (map vid (votes db0)) \<and>
   7 \<in> profiles db0 \<and>
   POST env_A
     (Some \<lparr>req_target_id = Uuid 99, req_target_type = ''answer'', req_vote_type = ''downvote''\<rparr>)
     db0 =
     (json 200 Success,
      db0\<lparr>votes := [\<lparr>vid = 10, user_id = Some 7, target_id = 99, target_type = Answer,
                       vote_type = Downvote\<rparr>]\<rparr>)"
  using POST_missing_target [of env_A 7
      "\<lparr>req_target_id = Uuid 99, req_target_type = ''answer'', req_vote_type = ''downvote''\<rparr>"
      99 Answer Downvote db0]
  by (simp add: env_A_def db0_def target_type_of_def vote_type_of_def score_def)

text \<open>
  Claim C4 as stated fails: voter 7 upvotes question 99, which does not exist. The call
  answers 200 with \<^verbatim>\<open>{ success: true }\<close>, not an error, and the vote row is inserted.
\<close>

theorem POST_missing_target_counterexample:
  "score db0 Question 99 = None \<and>
   fst (POST env_A
          (Some \<lparr>req_target_id = Uuid 99, req_target_type = ''question'', req_vote_type = ''upvote''\<rparr>)
          db0) = \<lparr>status = 200, body = Success\<rparr> \<and>
   votes (snd (POST env_A
          (Some \<lparr>req_target_id = Uuid 99, req_target_type = ''question'', req_vote_type = ''upvote''\<rparr>)
          db0)) =
     [\<lparr>vid = 10, user_id = Some 7, target_id = 99, target_type = Question, vote_type = Upvote\<rparr>]"
  by (simp add: POST_def env_A_def db0_def target_type_of_def vote_type_of_def score_def
        select_vote_single_def vote_mutation_def insert_vote_def unique_conflict_def
        update_questions_def update_set_votes_def json_def)

section \<open>The response, and calls without a session\<close>

text \<open>
  Claim C5, as the code has it. Every call of the route that answers 200 answers with
  the body \<^verbatim>\<open>{ success: true }\<close> and nothing more: the response is the same constant
  whatever the voter's new vote and the target's new score are.
\<close>

theorem POST_success_body:
  "status (fst (POST e request d)) = 200 \<longrightarrow>
     fst (POST e request d) = \<lparr>status = 200, body = Success\<rparr>"
  by (auto simp: POST_def json_def split: option.splits prod.splits sum.splits)

theorem POST_success_body_witness:
  "status (fst (POST env_A (Some up_Q1) db0)) = 200 \<and>
   fst (POST env_A (Some up_Q1) db0) = \<lparr>status = 200, body = Success\<rparr>"
proof -
  have "status (fst (POST env_A (Some up_Q1) db0)) = 200"
    by (simp add: POST_def env_A_def up_Q1_def db0_def target_type_of_def vote_type_of_def
          select_vote_single_def vote_mutation_def insert_vote_def unique_conflict_def
          update_questions_def update_set_votes_def int4_plus_def int4_ok_def vote_case_def
          json_def)
  with POST_success_body [of env_A "Some up_Q1" db0] show ?thesis by blast
qed

text \<open>
  Claim C5 as stated fails. Voter 7 upvotes question 1 twice. After the first call the
  voter's vote is an upvote and the score is 1; after the second there is no vote and the
  score is 0. Both calls succeed and both responses are the same \<^verbatim>\<open>{ success: true }\<close>:
  the response tells neither the vote state nor the score.
\<close>

theorem POST_result_shape_counterexample:
  "fst (POST env_A (Some up_Q1) db0) = \<lparr>status = 200, body = Success\<rparr> \<and>
   votes (snd (POST env_A (Some up_Q1) db0)) = [vote_A_Q1] \<and>
   score (snd (POST env_A (Some up_Q1) db0)) Question 1 = Some 1 \<and>
   fst (POST env_A (Some up_Q1) db1) = \<lparr>status = 200, body = Success\<rparr> \<and>
   votes (snd (POST env_A (Some up_Q1) db1)) = [] \<and>
   score (snd (POST env_A (Some up_Q1) db1)) Question 1 = Some 0"
  by (simp add: POST_def env_A_def up_Q1_def db0_def db1_def vote_A_Q1_def
        target_type_of_def vote_type_of_def
        select_vote_single_def vote_mutation_def insert_vote_def delete_votes_eq_id_def
        unique_conflict_def update_questions_def update_set_votes_def int4_plus_def
        int4_minus_def int4_ok_def vote_case_def json_def score_def)

text \<open>
  Claim C6, as the code has it. A call without an authenticated user fails and leaves the
  database as it was. The route checks the fields before the session, so the status is
  401 only when the body parses and its three fields are present and valid; it is 400 when
  a field is missing or not valid, and 500 when the body does not parse.
\<close>

theorem POST_unauthenticated:
  assumes "session_user e = None"
  shows "snd (POST e request d) = d \<and>
         status (fst (POST e request d)) =
           (case request of
              None \<Rightarrow> 500
            | Some rq \<Rightarrow>
                if req_target_id rq = Text [] \<or> target_type_of (req_target_type rq) = None \<or>
                   vote_type_of (req_vote_type rq) = None
                then 400 else 401) \<and>
         (status (fst (POST e request d)) = 401 \<longrightarrow>
            body (fst (POST e request d)) = Error_text ''Authentication required'')"
  using assms
  by (auto simp: POST_def json_def target_type_of_def vote_type_of_def split: option.splits)

theorem POST_unauthenticated_witness:
  "session_user (env_A\<lparr>session_user := None\<rparr>) = None \<and>
   snd (POST (env_A\<lparr>session_user := None\<rparr>) (Some up_Q1) db1) = db1 \<and>
   status (fst (POST (env_A\<lparr>session_user := None\<rparr>) (Some up_Q1) db1)) = 401 \<and>
   body (fst (POST (env_A\<lparr>session_user := None\<rparr>) (Some up_Q1) db1)) =
     Error_text ''Authentication required''"
  using POST_unauthenticated [of "env_A\<lparr>session_user := None\<rparr>" "Some up_Q1" db1]
  by (simp add: env_A_def up_Q1_def target_type_of_def vote_type_of_def)

text \<open>
  Claim C6 as stated fails: a caller without a session who sends the target type
  \<^verbatim>\<open>comment\<close> gets status 400, not 401.
\<close>

theorem POST_unauthenticated_counterexample:
  "session_user (env_A\<lparr>session_user := None\<rparr>) = None \<and>
   fst (POST (env_A\<lparr>session_user := None\<rparr>)
          (Some \<lparr>req_target_id = Uuid 1, req_target_type = ''comment'', req_vote_type = ''upvote''\<rparr>)
          db0) = \<lparr>status = 400, body = Error_text ''Invalid target type''\<rparr>"
  by (simp add: POST_def env_A_def target_type_of_def json_def)

section \<open>Errors of the vote path\<close>

lemma on_vote_change_single: "on_vote_change [ev] d = update_vote_count ev d"
  by (cases "update_vote_count ev d") simp_all

lemma insert_vote_trigger:
  assumes "vid r \<notin> set (map vid (votes d))"
    and "user_id r = Some u" "u \<in> profiles d"
    and "[r' \<leftarrow> votes d. unique_conflict r r'] = []"
  shows "insert_vote r d = update_vote_count (TG_INSERT r) (d\<lparr>votes := votes d @ [r]\<rparr>)"
  using assms by (simp add: insert_vote_def on_vote_change_single del: on_vote_change.simps)

lemma delete_votes_trigger:
  assumes pk: "distinct (map vid (votes d))" and mem: "ev \<in> set (votes d)"
  shows "delete_votes_eq_id (vid ev) d =
           update_vote_count (TG_DELETE ev) (d\<lparr>votes := [r \<leftarrow> votes d. r \<noteq> ev]\<rparr>)"
  by (simp add: delete_votes_eq_id_def filter_vid_eq [OF pk mem] filter_vid_neq [OF pk mem]
        on_vote_change_single del: on_vote_change.simps)

lemma update_votes_trigger:
  assumes pk: "distinct (map vid (votes d))" and mem: "ev \<in> set (votes d)"
    and only: "[r \<leftarrow> votes d. user_id r = user_id ev \<and> target_id r = target_id ev \<and>
                  target_type r = target_type ev] = [ev]"
  shows "update_votes_eq_id
           \<lparr>set_target_id = None, set_target_type = None, set_vote_type = Some vt\<rparr> (vid ev) d =
         update_vote_count (TG_UPDATE ev (ev\<lparr>vote_type := vt\<rparr>))
           (d\<lparr>votes := map (\<lambda>r. if r = ev then ev\<lparr>vote_type := vt\<rparr> else r) (votes d)\<rparr>)"
proof -
  let ?s = "\<lparr>set_target_id = None, set_target_type = None, set_vote_type = Some vt\<rparr>"
  let ?L = "map (\<lambda>r. if r = ev then ev\<lparr>vote_type := vt\<rparr> else r) (votes d)"
  have rows: "map (\<lambda>r. if vid r = vid ev then apply_set ?s r else r) (votes d) = ?L"
    using map_vid_eq [OF pk mem, of "apply_set ?s"] by (simp add: apply_set_vote_type)
  have noconf: "[r' \<leftarrow> ?L. vid r' \<noteq> vid ev \<and> unique_conflict (ev\<lparr>vote_type := vt\<rparr>) r'] = []"
  proof (rule ccontr)
    assume "\<not> ?thesis"
    then obtain r' where r': "r' \<in> set ?L" "vid r' \<noteq> vid ev"
        "unique_conflict (ev\<lparr>vote_type := vt\<rparr>) r'"
      by (auto simp: filter_empty_conv)
    from r'(1,2) have in_d: "r' \<in> set (votes d)" by (auto split: if_splits)
    from r'(3) have "user_id r' = user_id ev \<and> target_id r' = target_id ev \<and>
        target_type r' = target_type ev"
      by (simp add: unique_conflict_def)
    with in_d have "r' \<in> set [r \<leftarrow> votes d. user_id r = user_id ev \<and> target_id r = target_id ev \<and>
                  target_type r = target_type ev]"
      by simp
    then have "r' = ev" by (simp only: only) simp
    with r'(2) show False by simp
  qed
  show ?thesis
    unfolding update_votes_eq_id_def Let_def rows filter_vid_eq [OF pk mem]
    using noconf by (simp add: apply_set_vote_type on_vote_change_single del: on_vote_change.simps)
qed

lemma POST_failed_unchanged:
  "status (fst (POST e request d)) \<noteq> 200 \<Longrightarrow> snd (POST e request d) = d"
  by (auto simp: POST_def json_def split: option.splits prod.splits sum.splits if_splits)

lemma vote_mutation_rpc_error:
  "vote_mutation (e\<lparr>rpc_error := x\<rparr>) u tid tt vt ex d = vote_mutation e u tid tt vt ex d"
  by (simp add: vote_mutation_def split: option.splits id_field.splits)

lemma POST_rpc_error_ignored: "POST (e\<lparr>rpc_error := x\<rparr>) request d = POST e request d"
  by (simp add: POST_def vote_mutation_rpc_error split: option.splits prod.splits sum.splits)

lemma POST_trigger_insert_error:
  assumes v: "req_target_id rq = Uuid t" "target_type_of (req_target_type rq) = Some tt"
      "vote_type_of (req_vote_type rq) = Some vt" "session_user e = Some u"
    and none: "[r \<leftarrow> votes d. user_id r = Some u \<and> target_id r = t \<and> target_type r = tt] = []"
    and fresh: "new_vote_id e \<notin> set (map vid (votes d))"
    and prof: "u \<in> profiles d"
    and err: "update_vote_count
                (TG_INSERT \<lparr>vid = new_vote_id e, user_id = Some u, target_id = t,
                            target_type = tt, vote_type = vt\<rparr>)
                (d\<lparr>votes := votes d @ [\<lparr>vid = new_vote_id e, user_id = Some u, target_id = t,
                            target_type = tt, vote_type = vt\<rparr>]\<rparr>) = Inl x"
  shows "POST e (Some rq) d = (json 500 (Error_message x), d)"
proof -
  let ?r = "\<lparr>vid = new_vote_id e, user_id = Some u, target_id = t, target_type = tt,
             vote_type = vt\<rparr>"
  have uniq: "[r' \<leftarrow> votes d. unique_conflict ?r r'] = []"
    using none by (simp add: unique_conflict_def filter_empty_conv)
  have "insert_vote ?r d = Inl x"
    using insert_vote_trigger [of ?r d u] fresh prof uniq err by simp
  then show ?thesis
    by (simp add: POST_valid [OF v] select_none [OF none] vote_mutation_def)
qed

lemma POST_trigger_delete_error:
  assumes v: "req_target_id rq = Uuid t" "target_type_of (req_target_type rq) = Some tt"
      "vote_type_of (req_vote_type rq) = Some vt" "session_user e = Some u"
    and one: "[r \<leftarrow> votes d. user_id r = Some u \<and> target_id r = t \<and> target_type r = tt] = [ev]"
    and same: "vote_type ev = vt"
    and pk: "distinct (map vid (votes d))"
    and err: "update_vote_count (TG_DELETE ev) (d\<lparr>votes := [r \<leftarrow> votes d. r \<noteq> ev]\<rparr>) = Inl x"
  shows "POST e (Some rq) d = (json 500 (Error_message x), d)"
proof -
  from filter_single_mem [OF one] have mem: "ev \<in> set (votes d)" by simp
  have "delete_votes_eq_id (vid ev) d = Inl x"
    using delete_votes_trigger [OF pk mem] err by simp
  then show ?thesis
    by (simp add: POST_valid [OF v] select_one [OF one] vote_mutation_def same)
qed

lemma POST_trigger_update_error:
  assumes v: "req_target_id rq = Uuid t" "target_type_of (req_target_type rq) = Some tt"
      "vote_type_of (req_vote_type rq) = Some vt" "session_user e = Some u"
    and one: "[r \<leftarrow> votes d. user_id r = Some u \<and> target_id r = t \<and> target_type r = tt] = [ev]"
    and other: "vote_type ev \<noteq> vt"
    and pk: "distinct (map vid (votes d))"
    and err: "update_vote_count (TG_UPDATE ev (ev\<lparr>vote_type := vt\<rparr>))
                (d\<lparr>votes := map (\<lambda>r. if r = ev then ev\<lparr>vote_type := vt\<rparr> else r) (votes d)\<rparr>)
              = Inl x"
  shows "POST e (Some rq) d = (json 500 (Error_message x), d)"
proof -
  from filter_single_mem [OF one]
  have mem: "ev \<in> set (votes d)" and ev: "user_id ev = Some u" "target_id ev = t" "target_type ev = tt"
    by simp_all
  have only: "[r \<leftarrow> votes d. user_id r = user_id ev \<and> target_id r = target_id ev \<and>
                  target_type r = target_type ev] = [ev]"
    using one ev by simp
  have "update_votes_eq_id
           \<lparr>set_target_id = None, set_target_type = None, set_vote_type = Some vt\<rparr> (vid ev) d
        = Inl x"
    using update_votes_trigger [OF pk mem only, of vt] err by simp
  then show ?thesis
    by (simp add: POST_valid [OF v] select_one [OF one] vote_mutation_def other)
qed


text \<open>
  Claim C3, as the code has it. When the trigger's update of the score raises an error
  (the INTEGER score would leave its range) inside the insert, delete or update of the
  vote, the statement is rejected with it: the route answers 500 with the error's message
  and the database, ledger and scores, is unchanged. Every response other than 200 leaves
  the database unchanged, a target text that is not a UUID is answered 500, a call without
  a session is never answered 200, and a response 200 means that the lookup and the ledger
  statement raised no error. The error of the
  final RPC \<^verbatim>\<open>update_vote_count\<close> is the exception: it is logged only, and the outcome of
  the call is the same whatever that error is.
\<close>

theorem POST_error_propagation:
  assumes auth: "session_user e = Some u"
    and v: "req_target_id rq = Uuid t" "target_type_of (req_target_type rq) = Some tt"
      "vote_type_of (req_vote_type rq) = Some vt"
    and pk: "distinct (map vid (votes d))"
  shows
    "(\<forall>x. [r \<leftarrow> votes d. user_id r = Some u \<and> target_id r = t \<and> target_type r = tt] = [] \<and>
          new_vote_id e \<notin> set (map vid (votes d)) \<and> u \<in> profiles d \<and>
          update_vote_count
            (TG_INSERT \<lparr>vid = new_vote_id e, user_id = Some u, target_id = t,
                        target_type = tt, vote_type = vt\<rparr>)
            (d\<lparr>votes := votes d @ [\<lparr>vid = new_vote_id e, user_id = Some u, target_id = t,
                        target_type = tt, vote_type = vt\<rparr>]\<rparr>) = Inl x \<longrightarrow>
          POST e (Some rq) d = (json 500 (Error_message x), d)) \<and>
     (\<forall>x ev. [r \<leftarrow> votes d. user_id r = Some u \<and> target_id r = t \<and> target_type r = tt] = [ev] \<and>
          vote_type ev = vt \<and>
          update_vote_count (TG_DELETE ev) (d\<lparr>votes := [r \<leftarrow> votes d. r \<noteq> ev]\<rparr>) = Inl x \<longrightarrow>
          POST e (Some rq) d = (json 500 (Error_message x), d)) \<and>
     (\<forall>x ev. [r \<leftarrow> votes d. user_id r = Some u \<and> target_id r = t \<and> target_type r = tt] = [ev] \<and>
          vote_type ev \<noteq> vt \<and>
          update_vote_count (TG_UPDATE ev (ev\<lparr>vote_type := vt\<rparr>))
            (d\<lparr>votes := map (\<lambda>r. if r = ev then ev\<lparr>vote_type := vt\<rparr> else r) (votes d)\<rparr>)
            = Inl x \<longrightarrow>
          POST e (Some rq) d = (json 500 (Error_message x), d)) \<and>
     (\<forall>rq' s. req_target_id rq' = Text s \<and> s \<noteq> [] \<and>
          target_type_of (req_target_type rq') \<noteq> None \<and>
          vote_type_of (req_vote_type rq') \<noteq> None \<longrightarrow>
          POST e (Some rq') d = (json 500 (Error_message Invalid_text_representation), d)) \<and>
     (\<forall>request. status (fst (POST e request d)) \<noteq> 200 \<longrightarrow> snd (POST e request d) = d) \<and>
     (status (fst (POST e (Some rq) d)) = 200 \<longrightarrow>
        (\<exists>d'. vote_mutation e u (Uuid t) tt vt (fst (select_vote_single u (Uuid t) tt d)) d = Inr d' \<and>
              snd (POST e (Some rq) d) = d')) \<and>
     (\<forall>e' request. session_user e' = None \<longrightarrow> status (fst (POST e' request d)) \<noteq> 200) \<and>
     (\<forall>request x. POST (e\<lparr>rpc_error := x\<rparr>) request d = POST e request d)"
proof -
  have a: "\<forall>x. [r \<leftarrow> votes d. user_id r = Some u \<and> target_id r = t \<and> target_type r = tt] = [] \<and>
          new_vote_id e \<notin> set (map vid (votes d)) \<and> u \<in> profiles d \<and>
          update_vote_count
            (TG_INSERT \<lparr>vid = new_vote_id e, user_id = Some u, target_id = t,
                        target_type = tt, vote_type = vt\<rparr>)
            (d\<lparr>votes := votes d @ [\<lparr>vid = new_vote_id e, user_id = Some u, target_id = t,
                        target_type = tt, vote_type = vt\<rparr>]\<rparr>) = Inl x \<longrightarrow>
          POST e (Some rq) d = (json 500 (Error_message x), d)"
    using POST_trigger_insert_error [OF v auth] by blast
  have b: "\<forall>x ev. [r \<leftarrow> votes d. user_id r = Some u \<and> target_id r = t \<and> target_type r = tt] = [ev] \<and>
          vote_type ev = vt \<and>
          update_vote_count (TG_DELETE ev) (d\<lparr>votes := [r \<leftarrow> votes d. r \<noteq> ev]\<rparr>) = Inl x \<longrightarrow>
          POST e (Some rq) d = (json 500 (Error_message x), d)"
    using POST_trigger_delete_error [OF v auth _ _ pk] by blast
  have c: "\<forall>x ev. [r \<leftarrow> votes d. user_id r = Some u \<and> target_id r = t \<and> target_type r = tt] = [ev] \<and>
          vote_type ev \<noteq> vt \<and>
          update_vote_count (TG_UPDATE ev (ev\<lparr>vote_type := vt\<rparr>))
            (d\<lparr>votes := map (\<lambda>r. if r = ev then ev\<lparr>vote_type := vt\<rparr> else r) (votes d)\<rparr>)
            = Inl x \<longrightarrow>
          POST e (Some rq) d = (json 500 (Error_message x), d)"
    using POST_trigger_update_error [OF v auth _ _ pk] by blast
  have t: "\<forall>rq' s. req_target_id rq' = Text s \<and> s \<noteq> [] \<and>
          target_type_of (req_target_type rq') \<noteq> None \<and>
          vote_type_of (req_vote_type rq') \<noteq> None \<longrightarrow>
          POST e (Some rq') d = (json 500 (Error_message Invalid_text_representation), d)"
    using auth
    by (auto simp: POST_def select_vote_single_def dest: target_type_of_nonempty
          vote_type_of_nonempty)
  have f: "\<forall>request. status (fst (POST e request d)) \<noteq> 200 \<longrightarrow> snd (POST e request d) = d"
    using POST_failed_unchanged by blast
  have g: "status (fst (POST e (Some rq) d)) = 200 \<longrightarrow>
        (\<exists>d'. vote_mutation e u (Uuid t) tt vt (fst (select_vote_single u (Uuid t) tt d)) d = Inr d' \<and>
              snd (POST e (Some rq) d) = d')"
    by (simp add: POST_valid [OF v auth] json_def split: sum.splits)
  have n: "\<forall>e' request. session_user e' = None \<longrightarrow> status (fst (POST e' request d)) \<noteq> 200"
    by (auto simp: POST_def json_def split: option.splits)
  have r: "\<forall>request x. POST (e\<lparr>rpc_error := x\<rparr>) request d = POST e request d"
    using POST_rpc_error_ignored by blast
  from a b c t f g n r show ?thesis by blast
qed

theorem POST_error_propagation_witness:
  "session_user env_A = Some 7 \<and> req_target_id up_Q1 = Uuid 1 \<and>
   target_type_of (req_target_type up_Q1) = Some Question \<and>
   vote_type_of (req_vote_type up_Q1) = Some Upvote \<and>
   distinct (map vid (votes db_max)) \<and>
   [r \<leftarrow> votes db_max. user_id r = Some 7 \<and> target_id r = 1 \<and> target_type r = Question] = [] \<and>
   new_vote_id env_A \<notin> set (map vid (votes db_max)) \<and> 7 \<in> profiles db_max \<and>
   update_vote_count
     (TG_INSERT \<lparr>vid = new_vote_id env_A, user_id = Some 7, target_id = 1,
                 target_type = Question, vote_type = Upvote\<rparr>)
     (db_max\<lparr>votes := votes db_max @ [\<lparr>vid = new_vote_id env_A, user_id = Some 7, target_id = 1,
                 target_type = Question, vote_type = Upvote\<rparr>]\<rparr>)
     = Inl Numeric_value_out_of_range \<and>
   POST env_A (Some up_Q1) db_max = (json 500 (Error_message Numeric_value_out_of_range), db_max)"
proof -
  have h: "session_user env_A = Some 7" "req_target_id up_Q1 = Uuid 1"
    "target_type_of (req_target_type up_Q1) = Some Question"
    "vote_type_of (req_vote_type up_Q1) = Some Upvote"
    "distinct (map vid (votes db_max))"
    by (simp_all add: env_A_def up_Q1_def db_max_def target_type_of_def vote_type_of_def)
  have g: "[r \<leftarrow> votes db_max. user_id r = Some 7 \<and> target_id r = 1 \<and> target_type r = Question] = []"
    "new_vote_id env_A \<notin> set (map vid (votes db_max))" "7 \<in> profiles db_max"
    "update_vote_count
     (TG_INSERT \<lparr>vid = new_vote_id env_A, user_id = Some 7, target_id = 1,
                 target_type = Question, vote_type = Upvote\<rparr>)
     (db_max\<lparr>votes := votes db_max @ [\<lparr>vid = new_vote_id env_A, user_id = Some 7, target_id = 1,
                 target_type = Question, vote_type = Upvote\<rparr>]\<rparr>)
     = Inl Numeric_value_out_of_range"
    by (simp_all add: env_A_def db_max_def update_questions_def update_set_votes_def
          int4_plus_def int4_ok_def vote_case_def)
  from h g POST_error_propagation [OF h] show ?thesis by blast
qed

text \<open>
  Claim C3 as stated fails: the RPC returns an error, and the route still answers 200
  with \<^verbatim>\<open>{ success: true }\<close>.
\<close>

theorem POST_rpc_error_counterexample:
  "rpc_error env_A = Some (Rpc_error ''PGRST202'') \<and>
   fst (POST env_A (Some up_Q1) db0) = \<lparr>status = 200, body = Success\<rparr>"
  by (simp add: POST_def env_A_def up_Q1_def db0_def target_type_of_def vote_type_of_def
        select_vote_single_def vote_mutation_def insert_vote_def unique_conflict_def
        update_questions_def update_set_votes_def int4_plus_def int4_ok_def vote_case_def
        json_def)

section \<open>The component after a retraction\<close>

lemma filter_swap: "filter P (filter Q L) = filter Q (filter P L)"
  by (induction L) auto

lemma vote_success [simp]: "vote (Some (json 200 Success)) = True"
  by (simp add: vote_def json_def)

lemma handleVote_same_direction:
  assumes "isAuthenticated p" and "userVote st = Some uv" and "cv_vote_type uv = vt"
  shows "handleVote p vt True st =
           st\<lparr>voteCount := voteCount st,
              userVote := Some \<lparr>cv_id = cv_id uv, cv_user_id = None, cv_target_id = targetId p,
                                cv_target_type = targetType p, cv_vote_type = vt\<rparr>\<rparr>"
    and "compact_handleVote p vt True st =
           st\<lparr>voteCount := voteCount st,
              userVote := Some \<lparr>cv_id = cv_id uv, cv_user_id = None, cv_target_id = targetId p,
                                cv_target_type = targetType p, cv_vote_type = vt\<rparr>\<rparr>"
  using assms by (simp_all add: handleVote_def compact_handleVote_def Let_def)

lemma POST_toggle_off:
  assumes v: "req_target_id rq = Uuid t" "target_type_of (req_target_type rq) = Some tt"
      "vote_type_of (req_vote_type rq) = Some vt" "session_user e = Some u"
    and one: "[r \<leftarrow> votes d. user_id r = Some u \<and> target_id r = t \<and> target_type r = tt] = [ev]"
    and same: "vote_type ev = vt"
    and pk: "distinct (map vid (votes d))"
    and sc: "score d tt t = Some s"
    and room: "int4_ok (s - vote_case vt)"
  shows "\<exists>d'. POST e (Some rq) d = (json 200 Success, d') \<and>
           [r \<leftarrow> votes d'. user_id r = Some u \<and> target_id r = t \<and> target_type r = tt] = [] \<and>
           score d' tt t = Some (s - vote_case vt)"
proof -
  have "\<exists>d'. POST e (Some rq) d = (json 200 Success, d') \<and>
           moved (d\<lparr>votes := [r \<leftarrow> votes d. r \<noteq> ev]\<rparr>) tt t (- vote_case vt) d'"
    by (rule POST_delete [OF v one same pk]) (use sc room in simp)
  then obtain d' where p: "POST e (Some rq) d = (json 200 Success, d')"
    and m: "moved (d\<lparr>votes := [r \<leftarrow> votes d. r \<noteq> ev]\<rparr>) tt t (- vote_case vt) d'"
    by blast
  have "[r \<leftarrow> votes d'. user_id r = Some u \<and> target_id r = t \<and> target_type r = tt] =
        [r \<leftarrow> [r \<leftarrow> votes d. user_id r = Some u \<and> target_id r = t \<and> target_type r = tt]. r \<noteq> ev]"
    using m by (simp only: moved_votes filter_swap [of _ "\<lambda>r. r \<noteq> ev"])
  then have l: "[r \<leftarrow> votes d'. user_id r = Some u \<and> target_id r = t \<and> target_type r = tt] = []"
    by (simp only: one) simp
  have "score d' tt t = Some (s - vote_case vt)"
    using m sc by (simp add: moved_def)
  with p l show ?thesis by blast
qed

text \<open>
  Claim C10. In \<^verbatim>\<open>handleVote\<close> of \<^verbatim>\<open>VotingButtons\<close> and of
  \<^verbatim>\<open>CompactVotingButtons\<close>, after a successful submission whose direction is that of the
  vote the component has recorded, the new vote count is the old one and the recorded vote
  is a vote of the submitted direction, not null. The route has processed the same
  submission as a retraction: the vote is deleted and the stored score has moved by
  \<open>-1\<close> (upvote) or \<open>+1\<close> (downvote). So a component that showed the stored score and
  the stored vote before the call shows neither after it.
\<close>

theorem handleVote_toggle_off_diverges:
  assumes "isAuthenticated p" and "userVote st = Some uv" and "cv_vote_type uv = vt"
  shows
    "voteCount (handleVote p vt True st) = voteCount st \<and>
     userVote (handleVote p vt True st) =
       Some \<lparr>cv_id = cv_id uv, cv_user_id = None, cv_target_id = targetId p,
             cv_target_type = targetType p, cv_vote_type = vt\<rparr> \<and>
     voteCount (compact_handleVote p vt True st) = voteCount st \<and>
     userVote (compact_handleVote p vt True st) =
       Some \<lparr>cv_id = cv_id uv, cv_user_id = None, cv_target_id = targetId p,
             cv_target_type = targetType p, cv_vote_type = vt\<rparr> \<and>
     (\<forall>e u rq d ev s.
        session_user e = Some u \<and> req_target_id rq = Uuid (targetId p) \<and>
        target_type_of (req_target_type rq) = Some (targetType p) \<and>
        vote_type_of (req_vote_type rq) = Some vt \<and>
        [r \<leftarrow> votes d. user_id r = Some u \<and> target_id r = targetId p \<and>
                        target_type r = targetType p] = [ev] \<and>
        vote_type ev = vt \<and> distinct (map vid (votes d)) \<and>
        score d (targetType p) (targetId p) = Some s \<and>
        int4_ok (s - (if vt = Upvote then 1 else - 1)) \<and>
        voteCount st = s \<longrightarrow>
        (\<exists>d'. POST e (Some rq) d = (json 200 Success, d') \<and>
           [r \<leftarrow> votes d'. user_id r = Some u \<and> target_id r = targetId p \<and>
                            target_type r = targetType p] = [] \<and>
           score d' (targetType p) (targetId p) = Some (s - (if vt = Upvote then 1 else - 1)) \<and>
           Some (voteCount (handleVote p vt (vote (Some (fst (POST e (Some rq) d)))) st))
             \<noteq> score d' (targetType p) (targetId p) \<and>
           userVote (handleVote p vt (vote (Some (fst (POST e (Some rq) d)))) st) \<noteq> None \<and>
           Some (voteCount (compact_handleVote p vt (vote (Some (fst (POST e (Some rq) d)))) st))
             \<noteq> score d' (targetType p) (targetId p) \<and>
           userVote (compact_handleVote p vt (vote (Some (fst (POST e (Some rq) d)))) st) \<noteq> None))"
proof -
  note hv = handleVote_same_direction [OF assms]
  have srv: "\<forall>e u rq d ev s.
        session_user e = Some u \<and> req_target_id rq = Uuid (targetId p) \<and>
        target_type_of (req_target_type rq) = Some (targetType p) \<and>
        vote_type_of (req_vote_type rq) = Some vt \<and>
        [r \<leftarrow> votes d. user_id r = Some u \<and> target_id r = targetId p \<and>
                        target_type r = targetType p] = [ev] \<and>
        vote_type ev = vt \<and> distinct (map vid (votes d)) \<and>
        score d (targetType p) (targetId p) = Some s \<and>
        int4_ok (s - (if vt = Upvote then 1 else - 1)) \<and>
        voteCount st = s \<longrightarrow>
        (\<exists>d'. POST e (Some rq) d = (json 200 Success, d') \<and>
           [r \<leftarrow> votes d'. user_id r = Some u \<and> target_id r = targetId p \<and>
                            target_type r = targetType p] = [] \<and>
           score d' (targetType p) (targetId p) = Some (s - (if vt = Upvote then 1 else - 1)) \<and>
           Some (voteCount (handleVote p vt (vote (Some (fst (POST e (Some rq) d)))) st))
             \<noteq> score d' (targetType p) (targetId p) \<and>
           userVote (handleVote p vt (vote (Some (fst (POST e (Some rq) d)))) st) \<noteq> None \<and>
           Some (voteCount (compact_handleVote p vt (vote (Some (fst (POST e (Some rq) d)))) st))
             \<noteq> score d' (targetType p) (targetId p) \<and>
           userVote (compact_handleVote p vt (vote (Some (fst (POST e (Some rq) d)))) st) \<noteq> None)"
  proof (intro allI impI)
    fix e :: env and u :: uuid and rq :: vote_request and d :: db and ev :: vote_row and s :: int
    assume h: "session_user e = Some u \<and> req_target_id rq = Uuid (targetId p) \<and>
        target_type_of (req_target_type rq) = Some (targetType p) \<and>
        vote_type_of (req_vote_type rq) = Some vt \<and>
        [r \<leftarrow> votes d. user_id r = Some u \<and> target_id r = targetId p \<and>
                        target_type r = targetType p] = [ev] \<and>
        vote_type ev = vt \<and> distinct (map vid (votes d)) \<and>
        score d (targetType p) (targetId p) = Some s \<and>
        int4_ok (s - (if vt = Upvote then 1 else - 1)) \<and>
        voteCount st = s"
    then have room: "int4_ok (s - vote_case vt)" by (simp add: vote_case_def)
    from h have
      "\<exists>d'. POST e (Some rq) d = (json 200 Success, d') \<and>
           [r \<leftarrow> votes d'. user_id r = Some u \<and> target_id r = targetId p \<and>
                            target_type r = targetType p] = [] \<and>
           score d' (targetType p) (targetId p) = Some (s - vote_case vt)"
      by (intro POST_toggle_off [where ev = ev] room) simp_all
    then obtain d' where p: "POST e (Some rq) d = (json 200 Success, d')"
      and l: "[r \<leftarrow> votes d'. user_id r = Some u \<and> target_id r = targetId p \<and>
                            target_type r = targetType p] = []"
      and s': "score d' (targetType p) (targetId p) = Some (s - vote_case vt)"
      by blast
    have k: "vote_case vt = (if vt = Upvote then 1 else - 1)" by (simp add: vote_case_def)
    have ne: "s \<noteq> s - vote_case vt" by (simp add: vote_case_def)
    show "\<exists>d'. POST e (Some rq) d = (json 200 Success, d') \<and>
           [r \<leftarrow> votes d'. user_id r = Some u \<and> target_id r = targetId p \<and>
                            target_type r = targetType p] = [] \<and>
           score d' (targetType p) (targetId p) = Some (s - (if vt = Upvote then 1 else - 1)) \<and>
           Some (voteCount (handleVote p vt (vote (Some (fst (POST e (Some rq) d)))) st))
             \<noteq> score d' (targetType p) (targetId p) \<and>
           userVote (handleVote p vt (vote (Some (fst (POST e (Some rq) d)))) st) \<noteq> None \<and>
           Some (voteCount (compact_handleVote p vt (vote (Some (fst (POST e (Some rq) d)))) st))
             \<noteq> score d' (targetType p) (targetId p) \<and>
           userVote (compact_handleVote p vt (vote (Some (fst (POST e (Some rq) d)))) st) \<noteq> None"
      using p l s' h ne by (simp add: hv k [symmetric])
  qed
  from hv srv show ?thesis by simp
qed


theorem handleVote_toggle_off_diverges_witness:
  "isAuthenticated buttons_Q1 \<and>
   userVote shown_A_Q1 = Some \<lparr>cv_id = Some 10, cv_user_id = Some 7, cv_target_id = 1,
                               cv_target_type = Question, cv_vote_type = Upvote\<rparr> \<and>
   session_user env_A = Some 7 \<and> req_target_id up_Q1 = Uuid (targetId buttons_Q1) \<and>
   target_type_of (req_target_type up_Q1) = Some (targetType buttons_Q1) \<and>
   vote_type_of (req_vote_type up_Q1) = Some Upvote \<and>
   [r \<leftarrow> votes db1. user_id r = Some 7 \<and> target_id r = targetId buttons_Q1 \<and>
                     target_type r = targetType buttons_Q1] = [vote_A_Q1] \<and>
   vote_type vote_A_Q1 = Upvote \<and> distinct (map vid (votes db1)) \<and>
   score db1 (targetType buttons_Q1) (targetId buttons_Q1) = Some 1 \<and>
   int4_ok (1 - (if Upvote = Upvote then 1 else - 1)) \<and>
   voteCount shown_A_Q1 = 1 \<and>
   voteCount (handleVote buttons_Q1 Upvote True shown_A_Q1) = 1 \<and>
   (\<exists>d'. POST env_A (Some up_Q1) db1 = (json 200 Success, d') \<and>
      [r \<leftarrow> votes d'. user_id r = Some 7 \<and> target_id r = targetId buttons_Q1 \<and>
                      target_type r = targetType buttons_Q1] = [] \<and>
      score d' (targetType buttons_Q1) (targetId buttons_Q1) = Some 0 \<and>
      Some (voteCount (handleVote buttons_Q1 Upvote
              (vote (Some (fst (POST env_A (Some up_Q1) db1)))) shown_A_Q1))
        \<noteq> score d' (targetType buttons_Q1) (targetId buttons_Q1) \<and>
      userVote (handleVote buttons_Q1 Upvote
              (vote (Some (fst (POST env_A (Some up_Q1) db1)))) shown_A_Q1) \<noteq> None)"
proof -
  have c: "isAuthenticated buttons_Q1"
    "userVote shown_A_Q1 = Some \<lparr>cv_id = Some 10, cv_user_id = Some 7, cv_target_id = 1,
                               cv_target_type = Question, cv_vote_type = Upvote\<rparr>"
    "cv_vote_type \<lparr>cv_id = Some 10, cv_user_id = Some 7, cv_target_id = 1,
                               cv_target_type = Question, cv_vote_type = Upvote\<rparr> = Upvote"
    by (simp_all add: buttons_Q1_def shown_A_Q1_def)
  have h: "session_user env_A = Some 7 \<and> req_target_id up_Q1 = Uuid (targetId buttons_Q1) \<and>
   target_type_of (req_target_type up_Q1) = Some (targetType buttons_Q1) \<and>
   vote_type_of (req_vote_type up_Q1) = Some Upvote \<and>
   [r \<leftarrow> votes db1. user_id r = Some 7 \<and> target_id r = targetId buttons_Q1 \<and>
                     target_type r = targetType buttons_Q1] = [vote_A_Q1] \<and>
   vote_type vote_A_Q1 = Upvote \<and> distinct (map vid (votes db1)) \<and>
   score db1 (targetType buttons_Q1) (targetId buttons_Q1) = Some 1 \<and>
   int4_ok (1 - (if Upvote = Upvote then 1 else - 1)) \<and>
   voteCount shown_A_Q1 = 1"
    by (simp add: env_A_def up_Q1_def db1_def vote_A_Q1_def buttons_Q1_def shown_A_Q1_def
          target_type_of_def vote_type_of_def score_def int4_ok_def)
  from handleVote_toggle_off_diverges [OF c] have
    t1: "voteCount (handleVote buttons_Q1 Upvote True shown_A_Q1) = voteCount shown_A_Q1"
    and t2: "\<forall>e u rq d ev s.
        session_user e = Some u \<and> req_target_id rq = Uuid (targetId buttons_Q1) \<and>
        target_type_of (req_target_type rq) = Some (targetType buttons_Q1) \<and>
        vote_type_of (req_vote_type rq) = Some Upvote \<and>
        [r \<leftarrow> votes d. user_id r = Some u \<and> target_id r = targetId buttons_Q1 \<and>
                        target_type r = targetType buttons_Q1] = [ev] \<and>
        vote_type ev = Upvote \<and> distinct (map vid (votes d)) \<and>
        score d (targetType buttons_Q1) (targetId buttons_Q1) = Some s \<and>
        int4_ok (s - (if Upvote = Upvote then 1 else - 1)) \<and>
        voteCount shown_A_Q1 = s \<longrightarrow>
        (\<exists>d'. POST e (Some rq) d = (json 200 Success, d') \<and>
           [r \<leftarrow> votes d'. user_id r = Some u \<and> target_id r = targetId buttons_Q1 \<and>
                            target_type r = targetType buttons_Q1] = [] \<and>
           score d' (targetType buttons_Q1) (targetId buttons_Q1) =
             Some (s - (if Upvote = Upvote then 1 else - 1)) \<and>
           Some (voteCount (handleVote buttons_Q1 Upvote (vote (Some (fst (POST e (Some rq) d)))) shown_A_Q1))
             \<noteq> score d' (targetType buttons_Q1) (targetId buttons_Q1) \<and>
           userVote (handleVote buttons_Q1 Upvote (vote (Some (fst (POST e (Some rq) d)))) shown_A_Q1) \<noteq> None \<and>
           Some (voteCount (compact_handleVote buttons_Q1 Upvote (vote (Some (fst (POST e (Some rq) d)))) shown_A_Q1))
             \<noteq> score d' (targetType buttons_Q1) (targetId buttons_Q1) \<and>
           userVote (compact_handleVote buttons_Q1 Upvote (vote (Some (fst (POST e (Some rq) d)))) shown_A_Q1) \<noteq> None)"
    by blast+
  from t2 [rule_format, OF h] h t1 c show ?thesis by auto
qed

section \<open>The score and the ledger\<close>

text \<open>
  Inserts, deletes and updates that keep the target preserve the primary key and, for
  every votable, the equation of its score with its upvotes minus its downvotes. A
  statement the database rejects changes nothing. Every call of the route is such a change
  or none.
\<close>

lemma bump_score_conv:
  assumes "(if tt = Question then update_questions f x d else update_answers f x d) = Inr d'"
    and "\<And>s w. f s = Inr w \<Longrightarrow> w = g s"
  shows "votes d' = votes d \<and> profiles d' = profiles d \<and>
         (\<forall>tt' y. score d' tt' y =
            (if tt' = tt \<and> y = x then map_option g (score d tt x) else score d tt' y))"
proof (cases tt)
  case Question
  with assms(1) have u: "update_questions f x d = Inr d'" by simp
  show ?thesis
  proof (cases "questions d x")
    case None
    with u have "d' = d" by (simp add: update_questions_def update_set_votes_def)
    then show ?thesis using None Question by (simp add: score_def)
  next
    case (Some s)
    with u obtain w where w: "f s = Inr w" and d': "d' = d\<lparr>questions := (questions d)(x \<mapsto> w)\<rparr>"
      by (auto simp: update_questions_def update_set_votes_def split: sum.splits)
    from assms(2) [OF w] have "w = g s" .
    then show ?thesis using Some Question d' by (auto simp: score_def)
  qed
next
  case Answer
  with assms(1) have u: "update_answers f x d = Inr d'" by simp
  show ?thesis
  proof (cases "answers d x")
    case None
    with u have "d' = d" by (simp add: update_answers_def update_set_votes_def)
    then show ?thesis using None Answer by (simp add: score_def)
  next
    case (Some s)
    with u obtain w where w: "f s = Inr w" and d': "d' = d\<lparr>answers := (answers d)(x \<mapsto> w)\<rparr>"
      by (auto simp: update_answers_def update_set_votes_def split: sum.splits)
    from assms(2) [OF w] have "w = g s" .
    then show ?thesis using Some Answer d' by (auto simp: score_def not_Question)
  qed
qed

lemma trigger_insert_conv:
  assumes "update_vote_count (TG_INSERT r) d = Inr d'"
  shows "moved d (target_type r) (target_id r) (vote_case (vote_type r)) d'"
proof -
  have "votes d' = votes d \<and> profiles d' = profiles d \<and>
         (\<forall>tt' y. score d' tt' y =
            (if tt' = target_type r \<and> y = target_id r
             then map_option (\<lambda>s. s + vote_case (vote_type r)) (score d (target_type r) (target_id r))
             else score d tt' y))"
    by (rule bump_score_conv [where f = "\<lambda>v. int4_plus v (vote_case (vote_type r))"])
       (use assms in \<open>auto simp: int4_plus_def split: if_splits\<close>)
  then show ?thesis by (simp add: moved_def)
qed

lemma trigger_delete_conv:
  assumes "update_vote_count (TG_DELETE r) d = Inr d'"
  shows "moved d (target_type r) (target_id r) (- vote_case (vote_type r)) d'"
proof -
  have "votes d' = votes d \<and> profiles d' = profiles d \<and>
         (\<forall>tt' y. score d' tt' y =
            (if tt' = target_type r \<and> y = target_id r
             then map_option (\<lambda>s. s + - vote_case (vote_type r)) (score d (target_type r) (target_id r))
             else score d tt' y))"
    by (rule bump_score_conv [where f = "\<lambda>v. int4_minus v (vote_case (vote_type r))"])
       (use assms in \<open>auto simp: int4_minus_def split: if_splits\<close>)
  then show ?thesis by (simp add: moved_def)
qed

lemma trigger_update_conv:
  assumes "update_vote_count (TG_UPDATE r new) d = Inr d'"
  shows "moved d (target_type r) (target_id new)
           (vote_case (vote_type new) - vote_case (vote_type r)) d'"
proof -
  have "votes d' = votes d \<and> profiles d' = profiles d \<and>
         (\<forall>tt' y. score d' tt' y =
            (if tt' = target_type r \<and> y = target_id new
             then map_option (\<lambda>s. s + (vote_case (vote_type new) - vote_case (vote_type r)))
                    (score d (target_type r) (target_id new))
             else score d tt' y))"
    by (rule bump_score_conv [where f = "plus_new_minus_old (vote_type new) (vote_type r)"])
       (use assms in \<open>auto simp: plus_new_minus_old_def int4_plus_def int4_minus_def
            split: if_splits\<close>)
  then show ?thesis by (simp add: moved_def)
qed


lemma length_filter_remove_nat:
  "distinct L \<Longrightarrow> ev \<in> set L \<Longrightarrow>
   length (filter P L) = length [r \<leftarrow> L. r \<noteq> ev \<and> P r] + (if P ev then 1 else 0)"
proof (induction L)
  case Nil
  then show ?case by simp
next
  case (Cons a L)
  show ?case
  proof (cases "a = ev")
    case True
    then have "ev \<notin> set L" using Cons.prems by simp
    then have "[r \<leftarrow> L. r \<noteq> ev \<and> P r] = filter P L"
      by (intro filter_cong) auto
    then show ?thesis using True by simp
  next
    case False
    then have "length (filter P L) = length [r \<leftarrow> L. r \<noteq> ev \<and> P r] + (if P ev then 1 else 0)"
      using Cons by simp
    then show ?thesis using False by simp
  qed
qed

lemma length_filter_remove:
  assumes "distinct L" and "ev \<in> set L"
  shows "int (length [r \<leftarrow> L. r \<noteq> ev \<and> P r]) =
           int (length (filter P L)) - (if P ev then 1 else 0)"
  using length_filter_remove_nat [OF assms, of P] by simp

lemma length_filter_replace_nat:
  "distinct L \<Longrightarrow> ev \<in> set L \<Longrightarrow>
   length (filter P (map (\<lambda>r. if r = ev then new else r) L)) + (if P ev then 1 else 0) =
     length (filter P L) + (if P new then 1 else 0)"
proof (induction L)
  case Nil
  then show ?case by simp
next
  case (Cons a L)
  show ?case
  proof (cases "a = ev")
    case True
    then have "ev \<notin> set L" using Cons.prems by simp
    then have "map (\<lambda>r. if r = ev then new else r) L = L" by (intro map_idI) auto
    then show ?thesis using True by simp
  next
    case False
    then have "length (filter P (map (\<lambda>r. if r = ev then new else r) L)) + (if P ev then 1 else 0) =
        length (filter P L) + (if P new then 1 else 0)"
      using Cons by simp
    then show ?thesis using False by simp
  qed
qed

lemma length_filter_replace:
  assumes "distinct L" and "ev \<in> set L"
  shows "int (length (filter P (map (\<lambda>r. if r = ev then new else r) L))) =
     int (length (filter P L)) - (if P ev then 1 else 0) + (if P new then 1 else 0)"
  using length_filter_replace_nat [OF assms, of P new] by (simp split: if_splits)

text \<open>The upvotes minus the downvotes that reference a votable.\<close>

lemma net_append:
  "int (count_votes (d\<lparr>votes := votes d @ [r]\<rparr>) Upvote tt x) -
   int (count_votes (d\<lparr>votes := votes d @ [r]\<rparr>) Downvote tt x) =
   int (count_votes d Upvote tt x) - int (count_votes d Downvote tt x) +
     (if target_type r = tt \<and> target_id r = x then vote_case (vote_type r) else 0)"
  by (cases "vote_type r") (simp_all add: count_votes_def vote_case_def)

lemma net_remove:
  assumes "distinct (votes d)" and "ev \<in> set (votes d)"
  shows
  "int (count_votes (d\<lparr>votes := [r \<leftarrow> votes d. r \<noteq> ev]\<rparr>) Upvote tt x) -
   int (count_votes (d\<lparr>votes := [r \<leftarrow> votes d. r \<noteq> ev]\<rparr>) Downvote tt x) =
   int (count_votes d Upvote tt x) - int (count_votes d Downvote tt x) -
     (if target_type ev = tt \<and> target_id ev = x then vote_case (vote_type ev) else 0)"
  by (cases "vote_type ev")
     (simp_all add: count_votes_def vote_case_def length_filter_remove [OF assms])

lemma net_replace:
  assumes "distinct (votes d)" and "ev \<in> set (votes d)"
    and "target_type new = target_type ev" and "target_id new = target_id ev"
  shows
  "int (count_votes (d\<lparr>votes := map (\<lambda>r. if r = ev then new else r) (votes d)\<rparr>) Upvote tt x) -
   int (count_votes (d\<lparr>votes := map (\<lambda>r. if r = ev then new else r) (votes d)\<rparr>) Downvote tt x) =
   int (count_votes d Upvote tt x) - int (count_votes d Downvote tt x) +
     (if target_type ev = tt \<and> target_id ev = x
      then vote_case (vote_type new) - vote_case (vote_type ev) else 0)"
  using assms(3,4)
  by (cases "vote_type ev"; cases "vote_type new")
     (simp_all add: count_votes_def vote_case_def length_filter_replace [OF assms(1,2)]
        del: filter_map length_filter_map)

lemma consistent_moved:
  assumes c: "consistent_at d tt x"
    and m: "moved (d\<lparr>votes := L\<rparr>) tt0 x0 k d'"
    and n: "int (count_votes (d\<lparr>votes := L\<rparr>) Upvote tt x) -
            int (count_votes (d\<lparr>votes := L\<rparr>) Downvote tt x) =
            int (count_votes d Upvote tt x) - int (count_votes d Downvote tt x) +
              (if tt0 = tt \<and> x0 = x then k else 0)"
  shows "consistent_at d' tt x"
proof -
  have v: "votes d' = L" using m by (simp add: moved_votes)
  have cv: "\<And>vt. count_votes d' vt tt x = count_votes (d\<lparr>votes := L\<rparr>) vt tt x"
    by (simp add: count_votes_def v)
  have s: "score d' tt x = (if tt = tt0 \<and> x = x0 then map_option (\<lambda>s. s + k) (score d tt0 x0)
                            else score d tt x)"
    using m by (simp add: moved_votes)
  show ?thesis
    using c n unfolding consistent_at_def cv s
    by (auto split: option.splits if_splits)
qed


lemma apply_set_vid [simp]: "vid (apply_set s r) = vid r"
  by (simp add: apply_set_def)

lemma update_votes_one:
  assumes pk: "distinct (map vid (votes d))" and mem: "ev \<in> set (votes d)"
  shows "update_votes_eq_id s (vid ev) d =
           (if [r' \<leftarrow> map (\<lambda>r. if r = ev then apply_set s ev else r) (votes d).
                  vid r' \<noteq> vid ev \<and> unique_conflict (apply_set s ev) r'] \<noteq> []
            then Inl Unique_violation
            else update_vote_count (TG_UPDATE ev (apply_set s ev))
                   (d\<lparr>votes := map (\<lambda>r. if r = ev then apply_set s ev else r) (votes d)\<rparr>))"
  unfolding update_votes_eq_id_def Let_def map_vid_eq [OF pk mem] filter_vid_eq [OF pk mem]
  by (simp add: on_vote_change_single del: on_vote_change.simps)

lemma no_row_filter:
  assumes "\<not> (\<exists>ev \<in> set L. vid ev = x)"
  shows "[r \<leftarrow> L. vid r = x] = []" and "[r \<leftarrow> L. vid r \<noteq> x] = L"
    and "map (\<lambda>r. if vid r = x then f r else r) L = L"
  using assms by (auto simp: filter_empty_conv filter_id_conv intro: map_idI)

lemma db_votes_same [simp]: "d\<lparr>votes := votes d\<rparr> = d"
  by simp

lemma step_keeps_consistent:
  assumes pk: "distinct (map vid (votes d))"
    and c: "\<And>tt x. consistent_at d tt x"
    and k: "keeps_target m"
  shows "distinct (map vid (votes (step d m))) \<and> (\<forall>tt x. consistent_at (step d m) tt x)"
proof (cases m)
  case (Insert r)
  show ?thesis
  proof (cases "insert_vote r d")
    case (Inl e)
    then show ?thesis using Insert pk c by (simp add: step_def)
  next
    case (Inr d')
    then have fresh: "vid r \<notin> set (map vid (votes d))"
      and t: "update_vote_count (TG_INSERT r) (d\<lparr>votes := votes d @ [r]\<rparr>) = Inr d'"
      by (auto simp: insert_vote_def on_vote_change_single simp del: on_vote_change.simps
            split: if_splits)
    from trigger_insert_conv [OF t]
    have m: "moved (d\<lparr>votes := votes d @ [r]\<rparr>) (target_type r) (target_id r)
               (vote_case (vote_type r)) d'" .
    then have v: "votes d' = votes d @ [r]" by (simp add: moved_votes)
    have "distinct (map vid (votes d'))" using pk fresh by (simp add: v)
    moreover have "\<And>tt x. consistent_at d' tt x"
      by (rule consistent_moved [OF c m]) (rule net_append)
    ultimately show ?thesis using Insert Inr by (simp add: step_def)
  qed
next
  case (Delete x)
  show ?thesis
  proof (cases "\<exists>ev \<in> set (votes d). vid ev = x")
    case False
    then have "delete_votes_eq_id x d = Inr d"
      by (simp add: delete_votes_eq_id_def no_row_filter)
    then show ?thesis using Delete pk c by (simp add: step_def)
  next
    case True
    then obtain ev where mem: "ev \<in> set (votes d)" and x: "x = vid ev" by blast
    have dl: "distinct (votes d)" using pk by (simp add: distinct_map)
    show ?thesis
    proof (cases "delete_votes_eq_id x d")
      case (Inl e)
      then show ?thesis using Delete pk c by (simp add: step_def)
    next
      case (Inr d')
      then have t: "update_vote_count (TG_DELETE ev) (d\<lparr>votes := [r \<leftarrow> votes d. r \<noteq> ev]\<rparr>) = Inr d'"
        using delete_votes_trigger [OF pk mem] x by simp
      from trigger_delete_conv [OF t]
      have m: "moved (d\<lparr>votes := [r \<leftarrow> votes d. r \<noteq> ev]\<rparr>) (target_type ev) (target_id ev)
                 (- vote_case (vote_type ev)) d'" .
      then have v: "votes d' = [r \<leftarrow> votes d. r \<noteq> ev]" by (simp add: moved_votes)
      have "distinct (map vid (votes d'))" using pk by (simp add: v distinct_map_filter)
      moreover have "\<And>tt x. consistent_at d' tt x"
        by (rule consistent_moved [OF c m]) (simp add: net_remove [OF dl mem])
      ultimately show ?thesis using Delete Inr by (simp add: step_def)
    qed
  qed
next
  case (Update s x)
  with k have keep: "set_target_id s = None" "set_target_type s = None"
    by (simp_all add: keeps_target_def)
  show ?thesis
  proof (cases "\<exists>ev \<in> set (votes d). vid ev = x")
    case False
    then have "update_votes_eq_id s x d = Inr d"
      by (simp add: update_votes_eq_id_def no_row_filter)
    then show ?thesis using Update pk c by (simp add: step_def)
  next
    case True
    then obtain ev where mem: "ev \<in> set (votes d)" and x: "x = vid ev" by blast
    have dl: "distinct (votes d)" using pk by (simp add: distinct_map)
    let ?new = "apply_set s ev"
    let ?L = "map (\<lambda>r. if r = ev then ?new else r) (votes d)"
    have same: "target_type ?new = target_type ev" "target_id ?new = target_id ev"
      using keep by (simp_all add: apply_set_def)
    show ?thesis
    proof (cases "update_votes_eq_id s x d")
      case (Inl e)
      then show ?thesis using Update pk c by (simp add: step_def)
    next
      case (Inr d')
      then have t: "update_vote_count (TG_UPDATE ev ?new) (d\<lparr>votes := ?L\<rparr>) = Inr d'"
        using update_votes_one [OF pk mem, of s] x by (simp split: if_splits)
      from trigger_update_conv [OF t] same
      have m: "moved (d\<lparr>votes := ?L\<rparr>) (target_type ev) (target_id ev)
                 (vote_case (vote_type ?new) - vote_case (vote_type ev)) d'"
        by simp
      then have v: "votes d' = ?L" by (simp add: moved_votes)
      have "map vid ?L = map vid (votes d)" by (simp add: comp_def if_distrib cong: if_cong)
      then have "distinct (map vid (votes d'))" using pk by (simp only: v)
      moreover have "\<And>tt x. consistent_at d' tt x"
        by (rule consistent_moved [OF c m]) (rule net_replace [OF dl mem same])
      ultimately show ?thesis using Update Inr by (simp add: step_def)
    qed
  qed
qed

lemma run_keeps_consistent:
  assumes "list_all keeps_target ms"
    and "distinct (map vid (votes d))"
    and "\<forall>tt x. consistent_at d tt x"
  shows "distinct (map vid (votes (run ms d))) \<and> (\<forall>tt x. consistent_at (run ms d) tt x)"
  using assms
proof (induction ms arbitrary: d)
  case Nil
  then show ?case by (simp add: run_def)
next
  case (Cons m ms)
  from Cons.prems have k: "keeps_target m" and ks: "list_all keeps_target ms" by simp_all
  from step_keeps_consistent [OF Cons.prems(2) _ k] Cons.prems(3)
  have "distinct (map vid (votes (step d m)))" "\<forall>tt x. consistent_at (step d m) tt x"
    by blast+
  from Cons.IH [OF ks this] show ?case by (simp add: run_def)
qed

lemma initial_consistent:
  assumes "votes d = []" and "\<forall>tt x s. score d tt x = Some s \<longrightarrow> s = 0"
  shows "distinct (map vid (votes d)) \<and> (\<forall>tt x. consistent_at d tt x)"
  using assms by (auto simp: consistent_at_def count_votes_def split: option.splits)


lemma POST_is_step:
  "snd (POST e request d) = d \<or>
   (\<exists>m. keeps_target m \<and> snd (POST e request d) = step d m)"
proof (cases "status (fst (POST e request d)) = 200")
  case False
  then show ?thesis by (simp add: POST_failed_unchanged)
next
  case True
  then obtain rq :: vote_request and tt vt u ex d' where
    vm: "vote_mutation e u (req_target_id rq) tt vt ex d = Inr d'" and
    p: "snd (POST e request d) = d'"
    by (auto simp: POST_def json_def split: option.splits prod.splits sum.splits if_splits)
  show ?thesis
  proof (cases ex)
    case (Some ev)
    show ?thesis
    proof (cases "vote_type ev = vt")
      case True
      with vm Some have "apply_mutation (Delete (vid ev)) d = Inr d'"
        by (simp add: vote_mutation_def)
      then have "step d (Delete (vid ev)) = d'" by (simp add: step_def)
      moreover have "keeps_target (Delete (vid ev))" by (simp add: keeps_target_def)
      ultimately show ?thesis using p by metis
    next
      case False
      let ?m = "Update \<lparr>set_target_id = None, set_target_type = None, set_vote_type = Some vt\<rparr> (vid ev)"
      from False vm Some have "apply_mutation ?m d = Inr d'"
        by (simp add: vote_mutation_def)
      then have "step d ?m = d'" by (simp add: step_def)
      moreover have "keeps_target ?m" by (simp add: keeps_target_def)
      ultimately show ?thesis using p by metis
    qed
  next
    case None
    with vm obtain t where
      "apply_mutation (Insert \<lparr>vid = new_vote_id e, user_id = Some u, target_id = t,
          target_type = tt, vote_type = vt\<rparr>) d = Inr d'"
      by (auto simp: vote_mutation_def split: id_field.splits)
    then have "step d (Insert \<lparr>vid = new_vote_id e, user_id = Some u, target_id = t,
          target_type = tt, vote_type = vt\<rparr>) = d'"
      by (simp add: step_def)
    moreover have "keeps_target (Insert \<lparr>vid = new_vote_id e, user_id = Some u, target_id = t,
          target_type = tt, vote_type = vt\<rparr>)"
      by (simp add: keeps_target_def)
    ultimately show ?thesis using p by metis
  qed
qed

lemma POST_keeps_consistent:
  assumes "distinct (map vid (votes d))" and "\<forall>tt x. consistent_at d tt x"
  shows "distinct (map vid (votes (snd (POST e request d)))) \<and>
         (\<forall>tt x. consistent_at (snd (POST e request d)) tt x)"
proof -
  from POST_is_step [of e request d]
  consider "snd (POST e request d) = d"
    | m where "keeps_target m" "snd (POST e request d) = step d m"
    by blast
  then show ?thesis
  proof cases
    case 1
    then show ?thesis using assms by simp
  next
    case 2
    from step_keeps_consistent [OF assms(1) _ 2(1)] assms(2) show ?thesis
      by (simp add: 2(2))
  qed
qed

text \<open>
  Claim C1 fails on the code. From the initial state (empty ledger, every score 0), voter 7
  inserts an upvote on question 1 and then moves that row to question 2 with
  \<^verbatim>\<open>UPDATE votes SET target_id = 2 WHERE id = 10\<close>. Both statements are accepted. The
  UPDATE branch of the trigger adds \<open>1 - 1\<close> to the row \<^verbatim>\<open>NEW.target_id\<close> and never
  takes the vote back from \<^verbatim>\<open>OLD.target_id\<close>: question 1 keeps score 1 with no vote
  referencing it, and question 2 keeps score 0 with one upvote referencing it.
\<close>

theorem run_move_vote_breaks_score:
  "votes db0 = [] \<and> score db0 Question 1 = Some 0 \<and> score db0 Question 2 = Some 0 \<and>
   votes (run [Insert vote_A_Q1,
               Update \<lparr>set_target_id = Some 2, set_target_type = None, set_vote_type = None\<rparr> 10]
            db0) =
     [\<lparr>vid = 10, user_id = Some 7, target_id = 2, target_type = Question, vote_type = Upvote\<rparr>] \<and>
   score (run [Insert vote_A_Q1,
               Update \<lparr>set_target_id = Some 2, set_target_type = None, set_vote_type = None\<rparr> 10]
            db0) Question 1 = Some 1 \<and>
   count_votes (run [Insert vote_A_Q1,
               Update \<lparr>set_target_id = Some 2, set_target_type = None, set_vote_type = None\<rparr> 10]
            db0) Upvote Question 1 = 0 \<and>
   count_votes (run [Insert vote_A_Q1,
               Update \<lparr>set_target_id = Some 2, set_target_type = None, set_vote_type = None\<rparr> 10]
            db0) Downvote Question 1 = 0 \<and>
   score (run [Insert vote_A_Q1,
               Update \<lparr>set_target_id = Some 2, set_target_type = None, set_vote_type = None\<rparr> 10]
            db0) Question 2 = Some 0 \<and>
   count_votes (run [Insert vote_A_Q1,
               Update \<lparr>set_target_id = Some 2, set_target_type = None, set_vote_type = None\<rparr> 10]
            db0) Upvote Question 2 = 1 \<and>
   \<not> consistent_at (run [Insert vote_A_Q1,
               Update \<lparr>set_target_id = Some 2, set_target_type = None, set_vote_type = None\<rparr> 10]
            db0) Question 1"
proof -
  have 1: "step db0 (Insert vote_A_Q1) = db1"
    by (simp add: step_def insert_vote_def db0_def db1_def vote_A_Q1_def unique_conflict_def
          update_questions_def update_set_votes_def int4_plus_def int4_ok_def vote_case_def
          fun_upd_twist)
  have 2: "step db1 (Update \<lparr>set_target_id = Some 2, set_target_type = None, set_vote_type = None\<rparr> 10)
           = db1\<lparr>votes := [\<lparr>vid = 10, user_id = Some 7, target_id = 2, target_type = Question,
                              vote_type = Upvote\<rparr>]\<rparr>"
    by (simp add: step_def update_votes_eq_id_def db1_def vote_A_Q1_def apply_set_def
          unique_conflict_def update_questions_def update_set_votes_def plus_new_minus_old_def
          int4_plus_def int4_minus_def int4_ok_def vote_case_def)
  have r: "run [Insert vote_A_Q1,
               Update \<lparr>set_target_id = Some 2, set_target_type = None, set_vote_type = None\<rparr> 10]
            db0 = db1\<lparr>votes := [\<lparr>vid = 10, user_id = Some 7, target_id = 2, target_type = Question,
                              vote_type = Upvote\<rparr>]\<rparr>"
    by (simp add: run_def 1 2)
  show ?thesis
    unfolding r
    by (simp add: db0_def db1_def score_def count_votes_def consistent_at_def)
qed

end
